theory Spec2Isabelle
  imports Main
begin

section \<open>Data model of the tiling engine (engine.ts)\<close>

text \<open>
  Window handles (\<open>KWin.Client\<close>) and layout objects (\<open>ILayout\<close>) are references that the
  source compares by identity (\<open>===\<close>, \<open>indexOf\<close>); they are modelled as addresses.
  Tile objects are identified by their position in the engine's tile array: every entry of
  that array is an object of its own (created by \<open>new Tile\<close>), so a lookup that returns a
  Tile in the source returns its index here, and a mutation of the object is an update
  at that index.
\<close>

type_synonym client_ref = nat
type_synonym layout_ref = nat

record Rect =
  x :: int
  y :: int
  width :: int
  height :: int

text \<open>A JavaScript slot that holds an object, \<open>null\<close> or \<open>undefined\<close>.\<close>

datatype 'a jsval = Undefined | Null | Obj 'a

record Screen =
  screenId :: int
  layout :: "layout_ref jsval"
  layouts :: "layout_ref list"

text \<open>\<open>new Screen(id, layouts)\<close> with the list of layouts given.\<close>

definition newScreen :: "int \<Rightarrow> layout_ref list \<Rightarrow> Screen" where
  "newScreen sid ls =
     \<lparr>screenId = sid, layout = (case ls of [] \<Rightarrow> Undefined | l # _ \<Rightarrow> Obj l), layouts = ls\<rparr>"

record Tile =
  arrangeCount :: nat
  client :: client_ref
  floating :: bool
  geometry :: Rect
  isError :: bool
  floatGeometry :: Rect

definition newTile :: "client_ref \<Rightarrow> Rect \<Rightarrow> Tile" where
  "newTile c g =
     \<lparr>arrangeCount = 0, client = c, floating = False, geometry = g, isError = False,
      floatGeometry = g\<rparr>"

record Rule =
  className :: "string option"
  ignore :: bool
  ruleFloating :: bool

definition newRule :: "string \<Rightarrow> bool \<Rightarrow> bool \<Rightarrow> Rule" where
  "newRule cn ign fl =
     \<lparr>className = (if length cn > 0 then Some cn else None), ignore = ign, ruleFloating = fl\<rparr>"

datatype UserInput =
  Up | Down | Left | Right | ShiftUp | ShiftDown | ShiftLeft | ShiftRight
  | Increase | Decrease | SetMaster | Float | CycleLayout

text \<open>
  The engine. \<open>layoutHeap\<close> is the state of the layout objects the screens refer to; the
  layout classes are not part of engine.ts, so the type of that state is left open.
\<close>

record 'h TilingEngine =
  screens :: "Screen list"
  tiles :: "Tile list"
  rules :: "Rule list"
  layoutHeap :: 'h

definition newEngine :: "'h \<Rightarrow> 'h TilingEngine" where
  "newEngine h = \<lparr>screens = [], tiles = [], rules = [], layoutHeap = h\<rparr>"

text \<open>
  Modelled from the spec: the \<open>ILayout\<close> interface and the layout classes are not part of
  engine.ts, so the layout collaborator is a parameter, with the contract the spec gives
  it. \<open>apply(tiles, area)\<close> mutates the target geometries of the tiles it is given and
  nothing else of the engine: \<open>layoutApply\<close> returns the geometries it writes, in the order
  of the tiles. \<open>handleUserInput(input)\<close> answers whether the layout handled the input:
  \<open>layoutHandleUserInput\<close> returns the answer and the new state of the layout objects.
\<close>

record 'h ILayout =
  layoutApply :: "'h \<Rightarrow> layout_ref \<Rightarrow> Tile list \<Rightarrow> Rect \<Rightarrow> Rect list"
  layoutHandleUserInput :: "'h \<Rightarrow> layout_ref \<Rightarrow> UserInput \<Rightarrow> bool \<times> 'h"

subsection \<open>The window manager as the driver sees it\<close>

text \<open>
  The state of the KWin objects that \<open>KWinDriver\<close> reads and writes. \<open>visibleOn c s\<close> is
  the answer of \<open>isClientVisible\<close>, \<open>None\<close> when the call raises. \<open>activeClient\<close> is
  \<open>workspace.activeClient\<close>, \<open>None\<close> (\<open>null\<close>) when no window is focused.
  \<open>geometryWrites\<close> records the calls of \<open>setClientGeometry\<close>, oldest first.
\<close>

record World =
  resourceClass :: "client_ref \<Rightarrow> string"
  clientGeometry :: "client_ref \<Rightarrow> Rect"
  fullScreen :: "client_ref \<Rightarrow> bool"
  keepAbove :: "client_ref \<Rightarrow> bool"
  keepBelow :: "client_ref \<Rightarrow> bool"
  clientScreen :: "client_ref \<Rightarrow> int"
  visibleOn :: "client_ref \<Rightarrow> int \<Rightarrow> bool option"
  activeClient :: "client_ref option"
  placementArea :: "int \<Rightarrow> Rect"
  geometryWrites :: "(client_ref \<times> Rect) list"

definition getWorkingArea :: "World \<Rightarrow> int \<Rightarrow> Rect" where
  "getWorkingArea w sid = placementArea w sid"

definition getClientClassName :: "World \<Rightarrow> client_ref \<Rightarrow> string" where
  "getClientClassName w c = resourceClass w c"

definition getClientGeometry :: "World \<Rightarrow> client_ref \<Rightarrow> Rect" where
  "getClientGeometry w c =
     \<lparr>x = x (clientGeometry w c), y = y (clientGeometry w c),
      width = width (clientGeometry w c), height = height (clientGeometry w c)\<rparr>"

definition setClientGeometry :: "World \<Rightarrow> client_ref \<Rightarrow> Rect \<Rightarrow> World" where
  "setClientGeometry w c g =
     w\<lparr>clientGeometry := (clientGeometry w)(c := g),
       geometryWrites := geometryWrites w @ [(c, g)]\<rparr>"

definition isClientVisible :: "World \<Rightarrow> client_ref \<Rightarrow> int \<Rightarrow> bool option" where
  "isClientVisible w c sid = visibleOn w c sid"

definition isClientFullScreen :: "World \<Rightarrow> client_ref \<Rightarrow> bool" where
  "isClientFullScreen w c = fullScreen w c"

definition getActiveClient :: "World \<Rightarrow> client_ref option" where
  "getActiveClient w = activeClient w"

definition setActiveClient :: "World \<Rightarrow> client_ref \<Rightarrow> World" where
  "setActiveClient w c = w\<lparr>activeClient := Some c\<rparr>"

subsection \<open>Outcomes\<close>

text \<open>
  An operation returns, or throws; either way the mutations it made so far stay, so both
  outcomes carry the state.
\<close>

datatype error = TypeError

datatype ('a, 's) outcome = Return 'a 's | Throw error 's

fun stateOf :: "('a, 's) outcome \<Rightarrow> 's" where
  "stateOf (Return v s) = s"
| "stateOf (Throw e s) = s"

section \<open>Private helpers of the engine\<close>

fun findIndex :: "('a \<Rightarrow> bool) \<Rightarrow> 'a list \<Rightarrow> nat option" where
  "findIndex P [] = None"
| "findIndex P (a # as) = (if P a then Some 0 else map_option Suc (findIndex P as))"

text \<open>\<open>getTileByClient\<close>: the first tile whose client is the given handle, or \<open>null\<close>.\<close>

definition getTileByClient :: "Tile list \<Rightarrow> client_ref \<Rightarrow> nat option" where
  "getTileByClient ts c = findIndex (\<lambda>t. client t = c) ts"

text \<open>
  \<open>getActiveTile\<close>: \<open>getTileByClient\<close> of the focused window. No tile has \<open>null\<close> for
  its client, so without a focused window the loop of \<open>getTileByClient\<close> finds nothing.
\<close>

definition getActiveTile :: "Tile list \<Rightarrow> World \<Rightarrow> nat option" where
  "getActiveTile ts w =
     (case getActiveClient w of
        None \<Rightarrow> None
      | Some c \<Rightarrow> getTileByClient ts c)"

text \<open>
  \<open>getActiveScreen\<close>: reading \<open>workspace.activeClient.screen\<close> throws when no window is
  focused. Otherwise the result is the first screen with the id of the active client's
  screen, else \<open>this.screens[0]\<close>, which is \<open>undefined\<close> (\<open>None\<close>) on an empty list.
\<close>

definition getActiveScreen :: "Screen list \<Rightarrow> World \<Rightarrow> error + nat option" where
  "getActiveScreen ss w =
     (case activeClient w of
        None \<Rightarrow> Inl TypeError
      | Some c \<Rightarrow>
          Inr (case findIndex (\<lambda>s. screenId s = clientScreen w c) ss of
                 Some i \<Rightarrow> Some i
               | None \<Rightarrow> (if ss = [] then None else Some 0)))"

definition screenAt :: "Screen list \<Rightarrow> nat option \<Rightarrow> Screen option" where
  "screenAt ss io = (case io of None \<Rightarrow> None | Some i \<Rightarrow> Some (ss ! i))"

text \<open>
  \<open>isTileVisible\<close>: the driver's answer; a fault inside the \<open>try\<close> (the driver's call, or
  reading \<open>screen.id\<close> of an undefined screen) sets \<open>isError\<close> and answers \<open>false\<close>.
\<close>

definition isTileVisible :: "World \<Rightarrow> Tile \<Rightarrow> Screen option \<Rightarrow> Tile \<times> bool" where
  "isTileVisible w t scr =
     (case scr of
        None \<Rightarrow> (t\<lparr>isError := True\<rparr>, False)
      | Some s \<Rightarrow>
          (case isClientVisible w (client t) (screenId s) of
             None \<Rightarrow> (t\<lparr>isError := True\<rparr>, False)
           | Some b \<Rightarrow> (t, b)))"

text \<open>
  \<open>getVisibleTiles\<close>: the tile array after the checks, and the indices of the tiles that
  passed, in the array's order.
\<close>

definition getVisibleTiles :: "World \<Rightarrow> Screen option \<Rightarrow> Tile list \<Rightarrow> Tile list \<times> nat list" where
  "getVisibleTiles w scr ts =
     (let checked = map (\<lambda>t. isTileVisible w t scr) ts
      in (map fst checked, filter (\<lambda>i. snd (checked ! i)) [0..<length ts]))"

definition sameGeometry :: "Rect \<Rightarrow> Rect \<Rightarrow> bool" where
  "sameGeometry g h =
     (if x g = x h then
        if y g = y h then
          if width g = width h then
            if height g = height h then True else False
          else False
        else False
      else False)"

definition applyTileGeometry :: "World \<Rightarrow> Tile \<Rightarrow> bool \<Rightarrow> Tile \<times> World" where
  "applyTileGeometry w t isUpdated =
     (let g = getClientGeometry w (client t) in
      if sameGeometry g (geometry t) then (t\<lparr>arrangeCount := 0\<rparr>, w)
      else
        let t' = t\<lparr>arrangeCount := (if isUpdated then 0 else arrangeCount t + 1)\<rparr> in
        if arrangeCount t' > 5 then (t', w)
        else (t', setClientGeometry w (client t') (geometry t')))"

section \<open>Arrangement\<close>

definition arrangeClient ::
  "client_ref \<Rightarrow> 'h TilingEngine \<times> World \<Rightarrow> 'h TilingEngine \<times> World" where
  "arrangeClient c s =
     (case s of (e, w) \<Rightarrow>
        (case getTileByClient (tiles e) c of
           None \<Rightarrow> (e, w)
         | Some i \<Rightarrow>
             if floating (tiles e ! i) then (e, w)
             else if isClientFullScreen w (client (tiles e ! i)) then (e, w)
             else
               (case applyTileGeometry w (tiles e ! i) False of
                  (t', w') \<Rightarrow> (e\<lparr>tiles := (tiles e)[i := t']\<rparr>, w'))))"

text \<open>\<open>tile.client.keepAbove = tile.client.keepBelow = false\<close>.\<close>

definition clearMarkers :: "World \<Rightarrow> client_ref \<Rightarrow> World" where
  "clearMarkers w c =
     w\<lparr>keepAbove := (keepAbove w)(c := False), keepBelow := (keepBelow w)(c := False)\<rparr>"

text \<open>
  The filter of \<open>arrange\<close> over the visible tiles: a full-screen window loses its
  markers and is dropped, the others are kept.
\<close>

fun dropFullScreen :: "Tile list \<Rightarrow> nat list \<Rightarrow> World \<Rightarrow> nat list \<times> World" where
  "dropFullScreen ts [] w = ([], w)"
| "dropFullScreen ts (i # is) w =
     (if \<not> isClientFullScreen w (client (ts ! i)) then
        (case dropFullScreen ts is w of (ks, w') \<Rightarrow> (i # ks, w'))
      else dropFullScreen ts is (clearMarkers w (client (ts ! i))))"

text \<open>The effect of \<open>layout.apply\<close> on the tiles it was given.\<close>

fun setGeometries :: "nat list \<Rightarrow> Rect list \<Rightarrow> Tile list \<Rightarrow> Tile list" where
  "setGeometries (i # is) (r # rs) ts = setGeometries is rs (ts[i := (ts ! i)\<lparr>geometry := r\<rparr>])"
| "setGeometries is rs ts = ts"

text \<open>\<open>tileables.forEach\<close>: reconcile, then mark the window keep-below.\<close>

fun reconcileAll :: "nat list \<Rightarrow> Tile list \<times> World \<Rightarrow> Tile list \<times> World" where
  "reconcileAll [] s = s"
| "reconcileAll (i # is) s =
     (case s of (ts, w) \<Rightarrow>
        (case applyTileGeometry w (ts ! i) True of
           (t', w') \<Rightarrow>
             reconcileAll is (ts[i := t'], w'\<lparr>keepBelow := (keepBelow w')(client t' := True)\<rparr>)))"

fun raiseFloating :: "Tile list \<Rightarrow> nat list \<Rightarrow> World \<Rightarrow> World" where
  "raiseFloating ts [] w = w"
| "raiseFloating ts (i # is) w =
     raiseFloating ts is (w\<lparr>keepAbove := (keepAbove w)(client (ts ! i) := True)\<rparr>)"

text \<open>The body of the \<open>forEach\<close> of \<open>arrange\<close>, for one screen.\<close>

definition arrangeScreen ::
  "'h ILayout \<Rightarrow> Screen \<Rightarrow> 'h TilingEngine \<times> World \<Rightarrow> (unit, 'h TilingEngine \<times> World) outcome"
  where
  "arrangeScreen L scr s =
     (case s of (e, w) \<Rightarrow>
        if layout scr = Null then Return () (e, w)
        else
          (let area = getWorkingArea w (screenId scr) in
           case getVisibleTiles w (Some scr) (tiles e) of (ts1, vis) \<Rightarrow>
           case dropFullScreen ts1 vis w of (visibles, w1) \<Rightarrow>
             (let tileables = filter (\<lambda>i. \<not> floating (ts1 ! i)) visibles in
              case layout scr of
                Obj l \<Rightarrow>
                  (let ts2 = setGeometries tileables
                               (layoutApply L (layoutHeap e) l (map (\<lambda>i. ts1 ! i) tileables) area)
                               ts1
                   in case reconcileAll tileables (ts2, w1) of (ts3, w2) \<Rightarrow>
                        Return ()
                          (e\<lparr>tiles := ts3\<rparr>,
                           raiseFloating ts3 (filter (\<lambda>i. floating (ts3 ! i)) visibles) w2))
              | _ \<Rightarrow> Throw TypeError (e\<lparr>tiles := ts1\<rparr>, w1))))"

fun arrangeScreens ::
  "'h ILayout \<Rightarrow> Screen list \<Rightarrow> 'h TilingEngine \<times> World
     \<Rightarrow> (unit, 'h TilingEngine \<times> World) outcome" where
  "arrangeScreens L [] s = Return () s"
| "arrangeScreens L (scr # rest) s =
     (case arrangeScreen L scr s of
        Return u s' \<Rightarrow> arrangeScreens L rest s'
      | Throw err s' \<Rightarrow> Throw err s')"

definition arrange ::
  "'h ILayout \<Rightarrow> 'h TilingEngine \<times> World \<Rightarrow> (unit, 'h TilingEngine \<times> World) outcome" where
  "arrange L s = arrangeScreens L (screens (fst s)) s"

section \<open>Floating\<close>

text \<open>The \<open>boolean | string\<close> argument of \<open>setFloat\<close>.\<close>

datatype FloatValue = BoolValue bool | StringValue string

text \<open>The second half of \<open>setFloat\<close>, after the flag is set.\<close>

definition setFloatApply :: "World \<Rightarrow> Tile \<Rightarrow> Rect option \<Rightarrow> Tile \<times> World" where
  "setFloatApply w t g =
     (if floating t then
        (t, setClientGeometry w (client t) (case g of Some r \<Rightarrow> r | None \<Rightarrow> floatGeometry t))
      else
        (t\<lparr>floatGeometry := (case g of Some r \<Rightarrow> r | None \<Rightarrow> clientGeometry w (client t))\<rparr>, w))"

definition setFloat :: "World \<Rightarrow> Tile \<Rightarrow> FloatValue \<Rightarrow> Rect option \<Rightarrow> Tile \<times> World" where
  "setFloat w t v g =
     (case v of
        StringValue str \<Rightarrow> setFloatApply w (t\<lparr>floating := \<not> floating t\<rparr>) g
      | BoolValue b \<Rightarrow>
          if floating t = b then (t, w)
          else setFloatApply w (t\<lparr>floating := b\<rparr>) g)"

definition setClientFloat ::
  "client_ref \<Rightarrow> FloatValue \<Rightarrow> Rect \<Rightarrow> 'h TilingEngine \<times> World \<Rightarrow> 'h TilingEngine \<times> World"
  where
  "setClientFloat c v g s =
     (case s of (e, w) \<Rightarrow>
        (case getTileByClient (tiles e) c of
           None \<Rightarrow> (e, w)
         | Some i \<Rightarrow>
             (let rect = \<lparr>x = x g, y = y g, width = width g, height = height g\<rparr> in
              case setFloat w (tiles e ! i) v (Some rect) of
                (t', w') \<Rightarrow> (e\<lparr>tiles := (tiles e)[i := t']\<rparr>, w'))))"

section \<open>Lifecycle operations\<close>

definition manageClient ::
  "'h ILayout \<Rightarrow> client_ref \<Rightarrow> 'h TilingEngine \<times> World
     \<Rightarrow> (bool, 'h TilingEngine \<times> World) outcome" where
  "manageClient L c s =
     (case s of (e, w) \<Rightarrow>
        (let cn = getClientClassName w c in
         if list_ex (\<lambda>rule. Some cn = className rule \<and> ignore rule) (rules e)
         then Return False (e, w)
         else
           (let tile = newTile c (getClientGeometry w c) in
            case (if list_ex (\<lambda>rule. Some cn = className rule \<and> ruleFloating rule) (rules e)
                  then setFloat w tile (BoolValue True) None
                  else (tile, w)) of
              (tile', w') \<Rightarrow>
                (case arrange L (e\<lparr>tiles := tiles e @ [tile']\<rparr>, w') of
                   Return u s' \<Rightarrow> Return True s'
                 | Throw err s' \<Rightarrow> Throw err s'))))"

definition unmanageClient ::
  "'h ILayout \<Rightarrow> client_ref \<Rightarrow> 'h TilingEngine \<times> World
     \<Rightarrow> (unit, 'h TilingEngine \<times> World) outcome" where
  "unmanageClient L c s =
     (case s of (e, w) \<Rightarrow>
        arrange L (e\<lparr>tiles := filter (\<lambda>t. client t \<noteq> c \<and> \<not> isError t) (tiles e)\<rparr>, w))"

definition removeScreen :: "int \<Rightarrow> 'h TilingEngine \<Rightarrow> 'h TilingEngine" where
  "removeScreen sid e = e\<lparr>screens := filter (\<lambda>screen. screenId screen \<noteq> sid) (screens e)\<rparr>"

definition updateRules :: "Rule list \<Rightarrow> 'h TilingEngine \<Rightarrow> 'h TilingEngine" where
  "updateRules rs e = e\<lparr>rules := rs\<rparr>"

section \<open>User input\<close>

text \<open>
  The loop \<open>while (newIndex < 0) newIndex += visibles.length\<close> of \<open>moveFocus\<close>; it does
  not end when the index is negative and no tile is visible, hence the option.
\<close>

partial_function (option) wrapNegative :: "int \<Rightarrow> int \<Rightarrow> int option" where
  "wrapNegative newIndex len =
     (if newIndex < 0 then wrapNegative (newIndex + len) len else Some newIndex)"

definition moveFocus ::
  "int \<Rightarrow> 'h TilingEngine \<times> World \<Rightarrow> (unit, 'h TilingEngine \<times> World) outcome option" where
  "moveFocus step s =
     (case s of (e, w) \<Rightarrow>
        if step = 0 then Some (Return () (e, w))
        else
          (case getActiveTile (tiles e) w of
             None \<Rightarrow> Some (Return () (e, w))
           | Some tile \<Rightarrow>
               (case getActiveScreen (screens e) w of
                  Inl err \<Rightarrow> Some (Throw err (e, w))
                | Inr screen \<Rightarrow>
                    (case getVisibleTiles w (screenAt (screens e) screen) (tiles e) of
                       (ts', visibles) \<Rightarrow>
                         (let index = (case findIndex (\<lambda>i. i = tile) visibles of
                                         Some k \<Rightarrow> int k | None \<Rightarrow> - 1)
                          in case wrapNegative (index + step) (int (length visibles)) of
                               None \<Rightarrow> None
                             | Some newIndex \<Rightarrow>
                                 if visibles = []
                                 then Some (Throw TypeError (e\<lparr>tiles := ts'\<rparr>, w))
                                 else
                                   Some (Return ()
                                     (e\<lparr>tiles := ts'\<rparr>,
                                      setActiveClient w
                                        (client (ts' ! (visibles !
                                           nat (newIndex mod int (length visibles))))))))))))"

text \<open>
  The \<open>for\<close> loop of \<open>moveTile\<close>: \<open>i\<close> walks from the tile in direction \<open>dir\<close> (\<open>+1\<close> when
  \<open>forward\<close>, else \<open>-1\<close>), swapping the tile with every visible tile it meets until \<open>step\<close>
  is used up.
\<close>

function moveTileLoop ::
  "World \<Rightarrow> Screen option \<Rightarrow> bool \<Rightarrow> int \<Rightarrow> nat \<Rightarrow> int \<Rightarrow> Tile list \<Rightarrow> Tile list" where
  "moveTileLoop w screen forward i tileIdx step ts =
     (if 0 \<le> i \<and> i < int (length ts) then
        (case isTileVisible w (ts ! nat i) screen of
           (t', v) \<Rightarrow>
             if v then
               (if step - (if forward then 1 else - 1) = 0
                then ts[tileIdx := t', nat i := ts ! tileIdx]
                else moveTileLoop w screen forward (i + (if forward then 1 else - 1)) (nat i)
                       (step - (if forward then 1 else - 1))
                       (ts[tileIdx := t', nat i := ts ! tileIdx]))
             else moveTileLoop w screen forward (i + (if forward then 1 else - 1)) tileIdx step
                    (ts[nat i := t']))
      else ts)"
  by pat_completeness auto
termination
  by (relation "measure (\<lambda>(w, screen, forward, i, tileIdx, step, ts).
        if forward then nat (int (length ts) - i) else nat (i + 1))") auto

declare moveTileLoop.simps [simp del]

definition moveTile ::
  "int \<Rightarrow> 'h TilingEngine \<times> World \<Rightarrow> (unit, 'h TilingEngine \<times> World) outcome" where
  "moveTile step s =
     (case s of (e, w) \<Rightarrow>
        if step = 0 then Return () (e, w)
        else
          (case getActiveTile (tiles e) w of
             None \<Rightarrow> Return () (e, w)
           | Some tileIdx \<Rightarrow>
               (case getActiveScreen (screens e) w of
                  Inl err \<Rightarrow> Throw err (e, w)
                | Inr screen \<Rightarrow>
                    (let dir = (if step > 0 then 1 else - 1)
                     in Return ()
                          (e\<lparr>tiles := moveTileLoop w (screenAt (screens e) screen) (step > 0)
                                         (int tileIdx + dir) tileIdx step (tiles e)\<rparr>, w)))))"

text \<open>The loop of \<open>setMaster\<close>: \<open>for (i = index - 1; i >= 0; i--) tiles[i + 1] = tiles[i]\<close>.\<close>

fun shiftDown :: "nat \<Rightarrow> Tile list \<Rightarrow> Tile list" where
  "shiftDown 0 ts = ts"
| "shiftDown (Suc i) ts = shiftDown i (ts[Suc i := ts ! i])"

definition setMaster :: "'h TilingEngine \<times> World \<Rightarrow> 'h TilingEngine \<times> World" where
  "setMaster s =
     (case s of (e, w) \<Rightarrow>
        (case getActiveTile (tiles e) w of
           None \<Rightarrow> (e, w)
         | Some index \<Rightarrow>
             if index = 0 then (e, w)
             else (e\<lparr>tiles := (shiftDown index (tiles e))[0 := tiles e ! index]\<rparr>, w)))"

text \<open>JavaScript's \<open>%\<close> on integers: the sign of the dividend; \<open>None\<close> is \<open>NaN\<close>.\<close>

definition jsRem :: "int \<Rightarrow> int \<Rightarrow> int option" where
  "jsRem a b = (if b = 0 then None else Some (sgn a * (\<bar>a\<bar> mod \<bar>b\<bar>)))"

text \<open>The body of \<open>cycleLayout\<close> on the screen it found.\<close>

definition cycleScreen :: "int \<Rightarrow> Screen \<Rightarrow> Screen" where
  "cycleScreen target screen =
     (let index = (case layout screen of
                     Obj l \<Rightarrow> (case findIndex (\<lambda>k. k = l) (layouts screen) of
                                 Some i \<Rightarrow> int i | None \<Rightarrow> - 1)
                   | _ \<Rightarrow> - 1)
      in screen\<lparr>layout :=
           (case jsRem (index + target) (int (length (layouts screen))) of
              None \<Rightarrow> Undefined
            | Some k \<Rightarrow>
                if 0 \<le> k \<and> k < int (length (layouts screen)) then Obj (layouts screen ! nat k)
                else Undefined)\<rparr>)"

definition cycleLayout ::
  "int \<Rightarrow> 'h TilingEngine \<times> World \<Rightarrow> (unit, 'h TilingEngine \<times> World) outcome" where
  "cycleLayout target s =
     (case s of (e, w) \<Rightarrow>
        (case getActiveScreen (screens e) w of
           Inl err \<Rightarrow> Throw err (e, w)
         | Inr None \<Rightarrow> Throw TypeError (e, w)
         | Inr (Some i) \<Rightarrow>
             Return () (e\<lparr>screens := (screens e)[i := cycleScreen target (screens e ! i)]\<rparr>, w)))"

text \<open>The \<open>switch\<close> of \<open>handleUserInput\<close>.\<close>

definition interpretInput ::
  "UserInput \<Rightarrow> 'h TilingEngine \<times> World \<Rightarrow> (unit, 'h TilingEngine \<times> World) outcome option"
  where
  "interpretInput input s =
     (case input of
        Up \<Rightarrow> moveFocus (- 1) s
      | Down \<Rightarrow> moveFocus 1 s
      | ShiftUp \<Rightarrow> Some (moveTile (- 1) s)
      | ShiftDown \<Rightarrow> Some (moveTile 1 s)
      | SetMaster \<Rightarrow> Some (Return () (setMaster s))
      | Float \<Rightarrow>
          (case s of (e, w) \<Rightarrow>
             (case getActiveTile (tiles e) w of
                Some i \<Rightarrow>
                  (case setFloat w (tiles e ! i) (StringValue ''toggle'') None of
                     (t', w') \<Rightarrow> Some (Return () (e\<lparr>tiles := (tiles e)[i := t']\<rparr>, w')))
              | None \<Rightarrow> Some (Return () (e, w))))
      | CycleLayout \<Rightarrow> Some (cycleLayout 1 s)
      | _ \<Rightarrow> Some (Return () s))"

definition handleUserInput ::
  "'h ILayout \<Rightarrow> UserInput \<Rightarrow> 'h TilingEngine \<times> World
     \<Rightarrow> (unit, 'h TilingEngine \<times> World) outcome option" where
  "handleUserInput L input s =
     (case s of (e, w) \<Rightarrow>
        (case getActiveScreen (screens e) w of
           Inl err \<Rightarrow> Some (Throw err (e, w))
         | Inr None \<Rightarrow> Some (Return () (e, w))
         | Inr (Some si) \<Rightarrow>
             (case layout (screens e ! si) of
                Obj l \<Rightarrow>
                  (case layoutHandleUserInput L (layoutHeap e) l input of
                     (overriden, h') \<Rightarrow>
                       if overriden then Some (arrange L (e\<lparr>layoutHeap := h'\<rparr>, w))
                       else
                         (case interpretInput input (e\<lparr>layoutHeap := h'\<rparr>, w) of
                            None \<Rightarrow> None
                          | Some (Return u s') \<Rightarrow> Some (arrange L s')
                          | Some (Throw err s') \<Rightarrow> Some (Throw err s')))
              | _ \<Rightarrow> Some (Throw TypeError (e, w)))))"


section \<open>Runs of operations\<close>

text \<open>
  Window lifecycle events as the adapter delivers them; each carries the state of the
  window manager at the time of the call, which may have changed in any way since the
  previous event.
\<close>

datatype lifecycleOp = Manage client_ref World | Unmanage client_ref World

fun runLifecycle :: "'h ILayout \<Rightarrow> lifecycleOp list \<Rightarrow> 'h TilingEngine \<Rightarrow> 'h TilingEngine" where
  "runLifecycle L [] e = e"
| "runLifecycle L (Manage c w # ops) e =
     runLifecycle L ops (fst (stateOf (manageClient L c (e, w))))"
| "runLifecycle L (Unmanage c w # ops) e =
     runLifecycle L ops (fst (stateOf (unmanageClient L c (e, w))))"

text \<open>Every \<open>Manage\<close> of the run is for a window that has no tile at that moment.\<close>

fun managesUntracked :: "'h ILayout \<Rightarrow> lifecycleOp list \<Rightarrow> 'h TilingEngine \<Rightarrow> bool" where
  "managesUntracked L [] e = True"
| "managesUntracked L (Manage c w # ops) e =
     (getTileByClient (tiles e) c = None
      \<and> managesUntracked L ops (fst (stateOf (manageClient L c (e, w)))))"
| "managesUntracked L (Unmanage c w # ops) e =
     managesUntracked L ops (fst (stateOf (unmanageClient L c (e, w))))"

text \<open>
  Repeated \<open>geometryChanged\<close> notifications for one window: \<open>arrangeClient\<close> is called
  once for each state of the window manager in the list.
\<close>

fun arrangeClientRun :: "client_ref \<Rightarrow> World list \<Rightarrow> 'h TilingEngine \<Rightarrow> 'h TilingEngine" where
  "arrangeClientRun c [] e = e"
| "arrangeClientRun c (w # ws) e = arrangeClientRun c ws (fst (arrangeClient c (e, w)))"

text \<open>The tiles that pass \<open>isTileVisible\<close> on a screen, as a predicate.\<close>

definition passesVisible :: "World \<Rightarrow> Screen option \<Rightarrow> Tile \<Rightarrow> bool" where
  "passesVisible w screen t = snd (isTileVisible w t screen)"

definition checkedTile :: "World \<Rightarrow> Screen option \<Rightarrow> Tile \<Rightarrow> Tile" where
  "checkedTile w screen t = fst (isTileVisible w t screen)"

subsection \<open>Sample values\<close>

definition rect :: "int \<Rightarrow> int \<Rightarrow> int \<Rightarrow> int \<Rightarrow> Rect" where
  "rect a b c d = \<lparr>x = a, y = b, width = c, height = d\<rparr>"

text \<open>
  A window manager with every window of class konsole on screen 0, at 100x100, visible
  and not full-screen, and window 3 focused.
\<close>

definition sampleWorld :: World where
  "sampleWorld =
     \<lparr>resourceClass = (\<lambda>c. ''konsole''),
      clientGeometry = (\<lambda>c. rect 0 0 100 100),
      fullScreen = (\<lambda>c. False),
      keepAbove = (\<lambda>c. False),
      keepBelow = (\<lambda>c. False),
      clientScreen = (\<lambda>c. 0),
      visibleOn = (\<lambda>c s. Some True),
      activeClient = Some 3,
      placementArea = (\<lambda>s. rect 0 0 1200 800),
      geometryWrites = []\<rparr>"

text \<open>A layout that gives every tile the whole area and handles no input.\<close>

definition sampleLayout :: "unit ILayout" where
  "sampleLayout =
     \<lparr>layoutApply = (\<lambda>h l ts area. map (\<lambda>t. area) ts),
      layoutHandleUserInput = (\<lambda>h l input. (False, h))\<rparr>"

definition sampleTile :: "client_ref \<Rightarrow> Tile" where
  "sampleTile c = newTile c (rect 0 0 600 800)"

text \<open>The forward \<open>CycleLayout\<close> step, \<open>cycleLayout(+1)\<close>, made \<open>n\<close> times in succession.\<close>

fun cycleLayoutTimes ::
  "nat \<Rightarrow> 'h TilingEngine \<times> World \<Rightarrow> 'h TilingEngine \<times> World" where
  "cycleLayoutTimes 0 s = s"
| "cycleLayoutTimes (Suc n) s = cycleLayoutTimes n (stateOf (cycleLayout 1 s))"

text \<open>
  What an arrangement pass keeps: the length of the tile list, the window and the floating
  flag of every tile, the screens, and the window manager's answers on visibility and
  full-screen.
\<close>

definition passKeeps ::
  "'h TilingEngine \<times> World \<Rightarrow> 'h TilingEngine \<times> World \<Rightarrow> bool" where
  "passKeeps s s' \<longleftrightarrow>
     length (tiles (fst s')) = length (tiles (fst s))
     \<and> map client (tiles (fst s')) = map client (tiles (fst s))
     \<and> map floating (tiles (fst s')) = map floating (tiles (fst s))
     \<and> screens (fst s') = screens (fst s)
     \<and> visibleOn (snd s') = visibleOn (snd s)
     \<and> fullScreen (snd s') = fullScreen (snd s)"

section \<open>Basic facts\<close>

lemma findIndex_Some:
  "findIndex P xs = Some i \<Longrightarrow> i < length xs \<and> P (xs ! i) \<and> (\<forall>j<i. \<not> P (xs ! j))"
proof (induction xs arbitrary: i)
  case Nil
  then show ?case by simp
next
  case (Cons a as)
  show ?case
  proof (cases "P a")
    case True
    with Cons.prems show ?thesis by simp
  next
    case False
    with Cons.prems obtain k where k: "findIndex P as = Some k" "i = Suc k"
      by auto
    from Cons.IH [OF k(1)] False k(2) show ?thesis
      by (auto simp: nth_Cons split: nat.splits)
  qed
qed

lemma findIndex_None: "findIndex P xs = None \<longleftrightarrow> (\<forall>a\<in>set xs. \<not> P a)"
  by (induction xs) auto

lemma getTileByClient_Some:
  "getTileByClient ts c = Some i \<Longrightarrow> i < length ts \<and> client (ts ! i) = c"
  unfolding getTileByClient_def by (drule findIndex_Some) simp

section \<open>Ignore rules\<close>

text \<open>
  Claim C5. If some rule has the class name that the adapter reports for the window and
  has \<open>ignore\<close> set, \<open>manageClient\<close> returns \<open>false\<close> and leaves the engine (its tile list
  included) and the window manager as they were, whatever the other rules say.
\<close>

theorem manageClient_ignore:
  assumes "r \<in> set (rules e)"
    and "className r = Some (getClientClassName w c)"
    and "ignore r"
  shows "manageClient L c (e, w) = Return False (e, w)"
proof -
  have "list_ex (\<lambda>rule. Some (getClientClassName w c) = className rule \<and> ignore rule) (rules e)"
    using assms by (auto simp: list_ex_iff intro!: bexI [of _ r])
  then show ?thesis by (simp add: manageClient_def)
qed

text \<open>An ignore rule and a floating rule for the same class: the window is rejected.\<close>

theorem manageClient_ignore_witness:
  "newRule ''konsole'' True False
     \<in> set (rules (newEngine ()\<lparr>rules := [newRule ''konsole'' False True, newRule ''konsole'' True False]\<rparr>))
   \<and> className (newRule ''konsole'' True False) = Some (getClientClassName sampleWorld 7)
   \<and> ignore (newRule ''konsole'' True False)
   \<and> manageClient sampleLayout 7
        (newEngine ()\<lparr>rules := [newRule ''konsole'' False True, newRule ''konsole'' True False]\<rparr>,
         sampleWorld)
      = Return False
          (newEngine ()\<lparr>rules := [newRule ''konsole'' False True, newRule ''konsole'' True False]\<rparr>,
           sampleWorld)"
proof -
  let ?r = "newRule ''konsole'' True False"
  let ?e = "newEngine ()\<lparr>rules := [newRule ''konsole'' False True, ?r]\<rparr>"
  have h1: "?r \<in> set (rules ?e)" by (simp add: newEngine_def)
  have h2: "className ?r = Some (getClientClassName sampleWorld 7)"
    by (simp add: newRule_def getClientClassName_def sampleWorld_def)
  have h3: "ignore ?r" by (simp add: newRule_def)
  from manageClient_ignore [OF h1 h2 h3, of sampleLayout] h1 h2 h3 show ?thesis by blast
qed

section \<open>User input without a screen\<close>

text \<open>
  Claim C10. With an empty screen list \<open>handleUserInput\<close> is to return at once as a
  no-op for every input. The code does so when a window is focused: \<open>getActiveScreen\<close>
  finds no screen and the guard returns. When no window is focused, \<open>getActiveScreen\<close>
  throws a \<open>TypeError\<close> on reading \<open>workspace.activeClient.screen\<close>, before the guard is
  reached, and \<open>handleUserInput\<close> throws instead of returning. Either way the engine
  (tiles, screens, rules, every field of every tile) and the window manager (the log of
  geometry writes included) are unchanged.
\<close>

theorem handleUserInput_no_screens:
  "screens e = [] \<Longrightarrow>
     handleUserInput L input (e, w) =
       Some (case activeClient w of
               None \<Rightarrow> Throw TypeError (e, w)
             | Some c \<Rightarrow> Return () (e, w))"
  by (simp add: handleUserInput_def getActiveScreen_def split: option.splits)

text \<open>
  Three tiles, no screen, input \<open>SetMaster\<close>: without a focused window the call throws;
  with window 3 focused, whose tile is not the master, it returns and the tiles stay in
  their order.
\<close>

theorem handleUserInput_no_screens_witness:
  "screens (newEngine ()\<lparr>tiles := [sampleTile 1, sampleTile 2, sampleTile 3]\<rparr>) = []
   \<and> activeClient (sampleWorld\<lparr>activeClient := None\<rparr>) = None
   \<and> handleUserInput sampleLayout SetMaster
         (newEngine ()\<lparr>tiles := [sampleTile 1, sampleTile 2, sampleTile 3]\<rparr>,
          sampleWorld\<lparr>activeClient := None\<rparr>)
       = Some (Throw TypeError
           (newEngine ()\<lparr>tiles := [sampleTile 1, sampleTile 2, sampleTile 3]\<rparr>,
            sampleWorld\<lparr>activeClient := None\<rparr>))
   \<and> activeClient sampleWorld = Some 3
   \<and> handleUserInput sampleLayout SetMaster
         (newEngine ()\<lparr>tiles := [sampleTile 1, sampleTile 2, sampleTile 3]\<rparr>, sampleWorld)
       = Some (Return ()
           (newEngine ()\<lparr>tiles := [sampleTile 1, sampleTile 2, sampleTile 3]\<rparr>, sampleWorld))"
proof -
  let ?e = "newEngine ()\<lparr>tiles := [sampleTile 1, sampleTile 2, sampleTile 3]\<rparr>"
  have h: "screens ?e = []" by (simp add: newEngine_def)
  have n: "activeClient (sampleWorld\<lparr>activeClient := None\<rparr>) = None" by simp
  have f: "activeClient sampleWorld = Some 3" by (simp add: sampleWorld_def)
  from handleUserInput_no_screens [OF h, of sampleLayout SetMaster "sampleWorld\<lparr>activeClient := None\<rparr>"]
    handleUserInput_no_screens [OF h, of sampleLayout SetMaster sampleWorld] h n f
  show ?thesis by simp
qed

section \<open>The loop guard\<close>

text \<open>
  Claim C3, as the code has it. \<open>arrangeClient\<close> calls \<open>applyTileGeometry\<close> with
  \<open>isUpdated = false\<close>: for a tracked, non-floating, non-full-screen window whose live
  geometry differs from the tile's target, it adds one to \<open>arrangeCount\<close> before deciding
  whether to write, and writes the target exactly when the new count is at most 5.
  (The reset to zero is what \<open>arrange\<close> does, which passes \<open>true\<close>.)
\<close>

theorem arrangeClient_increments:
  assumes "getTileByClient (tiles e) c = Some i"
    and "\<not> floating (tiles e ! i)"
    and "\<not> isClientFullScreen w c"
    and "\<not> sameGeometry (getClientGeometry w c) (geometry (tiles e ! i))"
  shows "arrangeCount (tiles (fst (arrangeClient c (e, w))) ! i) = arrangeCount (tiles e ! i) + 1
    \<and> geometryWrites (snd (arrangeClient c (e, w))) =
        (if arrangeCount (tiles e ! i) + 1 > 5 then geometryWrites w
         else geometryWrites w @ [(c, geometry (tiles e ! i))])"
proof -
  from getTileByClient_Some [OF assms(1)] have i: "i < length (tiles e)" "client (tiles e ! i) = c"
    by simp_all
  show ?thesis
    using assms i
    by (simp add: arrangeClient_def applyTileGeometry_def Let_def setClientGeometry_def)
qed

theorem arrangeClient_increments_witness:
  "getTileByClient (tiles (newEngine ()\<lparr>tiles := [sampleTile 3\<lparr>arrangeCount := 2\<rparr>]\<rparr>)) 3 = Some 0
   \<and> \<not> floating (tiles (newEngine ()\<lparr>tiles := [sampleTile 3\<lparr>arrangeCount := 2\<rparr>]\<rparr>) ! 0)
   \<and> \<not> isClientFullScreen sampleWorld 3
   \<and> \<not> sameGeometry (getClientGeometry sampleWorld 3)
          (geometry (tiles (newEngine ()\<lparr>tiles := [sampleTile 3\<lparr>arrangeCount := 2\<rparr>]\<rparr>) ! 0))
   \<and> arrangeCount (tiles (fst (arrangeClient 3
        (newEngine ()\<lparr>tiles := [sampleTile 3\<lparr>arrangeCount := 2\<rparr>]\<rparr>, sampleWorld))) ! 0) = 3
   \<and> geometryWrites (snd (arrangeClient 3
        (newEngine ()\<lparr>tiles := [sampleTile 3\<lparr>arrangeCount := 2\<rparr>]\<rparr>, sampleWorld)))
      = [(3, rect 0 0 600 800)]"
proof -
  let ?e = "newEngine ()\<lparr>tiles := [sampleTile 3\<lparr>arrangeCount := 2\<rparr>]\<rparr>"
  have h1: "getTileByClient (tiles ?e) 3 = Some 0"
    by (simp add: newEngine_def getTileByClient_def sampleTile_def newTile_def)
  have h2: "\<not> floating (tiles ?e ! 0)"
    by (simp add: newEngine_def sampleTile_def newTile_def)
  have h3: "\<not> isClientFullScreen sampleWorld 3"
    by (simp add: isClientFullScreen_def sampleWorld_def)
  have h4: "\<not> sameGeometry (getClientGeometry sampleWorld 3) (geometry (tiles ?e ! 0))"
    by (simp add: sameGeometry_def getClientGeometry_def sampleWorld_def newEngine_def
        sampleTile_def newTile_def rect_def)
  from arrangeClient_increments [OF h1 h2 h3 h4] h1 h2 h3 h4 show ?thesis
    by (simp add: newEngine_def sampleTile_def newTile_def sampleWorld_def)
qed

text \<open>
  Claim C3 as stated fails: a tile with \<open>arrangeCount = 2\<close> whose window sits at another
  geometry has \<open>arrangeCount = 3\<close>, not 0, after \<open>arrangeClient\<close>.
\<close>

theorem arrangeClient_reset_counterexample:
  "getTileByClient (tiles (newEngine ()\<lparr>tiles := [sampleTile 3\<lparr>arrangeCount := 2\<rparr>]\<rparr>)) 3 = Some 0
   \<and> \<not> floating (tiles (newEngine ()\<lparr>tiles := [sampleTile 3\<lparr>arrangeCount := 2\<rparr>]\<rparr>) ! 0)
   \<and> \<not> isClientFullScreen sampleWorld 3
   \<and> \<not> sameGeometry (getClientGeometry sampleWorld 3)
          (geometry (tiles (newEngine ()\<lparr>tiles := [sampleTile 3\<lparr>arrangeCount := 2\<rparr>]\<rparr>) ! 0))
   \<and> arrangeCount (tiles (fst (arrangeClient 3
        (newEngine ()\<lparr>tiles := [sampleTile 3\<lparr>arrangeCount := 2\<rparr>]\<rparr>, sampleWorld))) ! 0) \<noteq> 0"
  by (simp add: newEngine_def getTileByClient_def sampleTile_def newTile_def
      isClientFullScreen_def sampleWorld_def sameGeometry_def getClientGeometry_def rect_def
      arrangeClient_def applyTileGeometry_def Let_def setClientGeometry_def)


lemma findIndex_map: "findIndex P (map f xs) = findIndex (\<lambda>a. P (f a)) xs"
  by (induction xs) auto

lemma getTileByClient_clients:
  "map client ts = map client ts' \<Longrightarrow> getTileByClient ts c = getTileByClient ts' c"
proof -
  assume h: "map client ts = map client ts'"
  have "getTileByClient ts c = findIndex (\<lambda>a. a = c) (map client ts)" for ts
    by (simp add: getTileByClient_def findIndex_map)
  with h show ?thesis by simp
qed

lemma applyTileGeometry_fields:
  "client (fst (applyTileGeometry w t u)) = client t"
  "floating (fst (applyTileGeometry w t u)) = floating t"
  "geometry (fst (applyTileGeometry w t u)) = geometry t"
  "isError (fst (applyTileGeometry w t u)) = isError t"
  by (simp_all add: applyTileGeometry_def Let_def)

lemma arrangeClient_step:
  assumes "getTileByClient (tiles e) c = Some i"
  shows "getTileByClient (tiles (fst (arrangeClient c (e, w)))) c = Some i"
    and "geometry (tiles (fst (arrangeClient c (e, w))) ! i) = geometry (tiles e ! i)"
    and "floating (tiles (fst (arrangeClient c (e, w))) ! i) = floating (tiles e ! i)"
    and "\<not> floating (tiles e ! i) \<Longrightarrow>
           \<not> sameGeometry (getClientGeometry w c) (geometry (tiles e ! i)) \<Longrightarrow>
           arrangeCount (tiles (fst (arrangeClient c (e, w))) ! i) =
             arrangeCount (tiles e ! i) + (if isClientFullScreen w c then 0 else 1)"
proof -
  from getTileByClient_Some [OF assms] have i: "i < length (tiles e)" "client (tiles e ! i) = c"
    by simp_all
  have "map client (tiles (fst (arrangeClient c (e, w)))) = map client (tiles e)"
    using assms i
    by (simp add: arrangeClient_def map_update applyTileGeometry_fields split: prod.splits)
       (metis applyTileGeometry_fields(1) fst_conv list_update_id map_update)
  from getTileByClient_clients [OF this] assms
  show "getTileByClient (tiles (fst (arrangeClient c (e, w)))) c = Some i" by simp
  show "geometry (tiles (fst (arrangeClient c (e, w))) ! i) = geometry (tiles e ! i)"
    using assms i
    by (auto simp: arrangeClient_def split: prod.splits)
       (metis applyTileGeometry_fields(3) fst_conv)
  show "floating (tiles (fst (arrangeClient c (e, w))) ! i) = floating (tiles e ! i)"
    using assms i
    by (auto simp: arrangeClient_def split: prod.splits)
       (metis applyTileGeometry_fields(2) fst_conv)
  show "\<not> floating (tiles e ! i) \<Longrightarrow>
           \<not> sameGeometry (getClientGeometry w c) (geometry (tiles e ! i)) \<Longrightarrow>
           arrangeCount (tiles (fst (arrangeClient c (e, w))) ! i) =
             arrangeCount (tiles e ! i) + (if isClientFullScreen w c then 0 else 1)"
    using assms i
    by (simp add: arrangeClient_def applyTileGeometry_def Let_def)
qed

lemma arrangeClientRun_tile:
  assumes "getTileByClient (tiles e) c = Some i"
    and "\<forall>w\<in>set ws. \<not> sameGeometry (getClientGeometry w c) (geometry (tiles e ! i))"
  shows "getTileByClient (tiles (arrangeClientRun c ws e)) c = Some i
    \<and> geometry (tiles (arrangeClientRun c ws e) ! i) = geometry (tiles e ! i)
    \<and> floating (tiles (arrangeClientRun c ws e) ! i) = floating (tiles e ! i)
    \<and> (\<not> floating (tiles e ! i) \<longrightarrow>
         arrangeCount (tiles (arrangeClientRun c ws e) ! i) =
           arrangeCount (tiles e ! i) + length (filter (\<lambda>w. \<not> isClientFullScreen w c) ws))"
  using assms
proof (induction ws arbitrary: e)
  case Nil
  then show ?case by simp
next
  case (Cons w ws)
  let ?e1 = "fst (arrangeClient c (e, w))"
  note st = arrangeClient_step [OF Cons.prems(1), of w]
  have mism: "\<not> sameGeometry (getClientGeometry w c) (geometry (tiles e ! i))"
    using Cons.prems(2) by simp
  have "\<forall>v\<in>set ws. \<not> sameGeometry (getClientGeometry v c) (geometry (tiles ?e1 ! i))"
    using Cons.prems(2) st(2) by simp
  from Cons.IH [OF st(1) this] st(2,3) st(4) [OF _ mism]
  show ?case by auto
qed

text \<open>
  Claim C2, as the code has it. Take any number of \<open>arrangeClient\<close> calls for a window,
  at none of which the live geometry equals the target of the window's tile. Once five of
  them were made while the window was not full-screen, no later \<open>arrangeClient\<close> call for
  the window writes a geometry: the sixth such call finds the counter above 5. A call made
  while the window is full-screen returns before the counter is touched, so it neither
  writes nor counts.
\<close>

theorem arrangeClient_gives_up:
  assumes "getTileByClient (tiles e) c = Some i"
    and "\<forall>w\<in>set ws. \<not> sameGeometry (getClientGeometry w c) (geometry (tiles e ! i))"
    and "5 \<le> length (filter (\<lambda>w. \<not> isClientFullScreen w c) ws)"
  shows "geometryWrites (snd (arrangeClient c (arrangeClientRun c ws e, w))) = geometryWrites w"
proof -
  let ?e' = "arrangeClientRun c ws e"
  from arrangeClientRun_tile [OF assms(1,2)]
  have t: "getTileByClient (tiles ?e') c = Some i"
    and cnt: "\<not> floating (tiles ?e' ! i) \<Longrightarrow> 5 \<le> arrangeCount (tiles ?e' ! i)"
    using assms(3) by auto
  show ?thesis
    using t cnt
    by (auto simp: arrangeClient_def applyTileGeometry_def Let_def)
qed

theorem arrangeClient_gives_up_witness:
  "getTileByClient (tiles (newEngine ()\<lparr>tiles := [sampleTile 3]\<rparr>)) 3 = Some 0
   \<and> \<not> sameGeometry (getClientGeometry sampleWorld 3)
          (geometry (tiles (newEngine ()\<lparr>tiles := [sampleTile 3]\<rparr>) ! 0))
   \<and> 5 \<le> length (filter (\<lambda>w. \<not> isClientFullScreen w 3) (replicate 5 sampleWorld))
   \<and> geometryWrites (snd (arrangeClient 3
        (arrangeClientRun 3 (replicate 5 sampleWorld) (newEngine ()\<lparr>tiles := [sampleTile 3]\<rparr>),
         sampleWorld))) = []"
proof -
  let ?e = "newEngine ()\<lparr>tiles := [sampleTile 3]\<rparr>"
  have h1: "getTileByClient (tiles ?e) 3 = Some 0"
    by (simp add: newEngine_def getTileByClient_def sampleTile_def newTile_def)
  have h2: "\<not> sameGeometry (getClientGeometry sampleWorld 3) (geometry (tiles ?e ! 0))"
    by (simp add: sameGeometry_def getClientGeometry_def sampleWorld_def newEngine_def
        sampleTile_def newTile_def rect_def)
  then have h2': "\<forall>w\<in>set (replicate 5 sampleWorld).
        \<not> sameGeometry (getClientGeometry w 3) (geometry (tiles ?e ! 0))"
    by simp
  have h3: "5 \<le> length (filter (\<lambda>w. \<not> isClientFullScreen w 3) (replicate 5 sampleWorld))"
    by (simp add: isClientFullScreen_def sampleWorld_def)
  from arrangeClient_gives_up [OF h1 h2' h3, of sampleWorld] h1 h2 h3 show ?thesis
    by (simp add: sampleWorld_def)
qed

text \<open>
  Claim C2 as stated counts every invocation. Five calls while the window is full-screen
  leave the counter at 0, and the sixth call, the window no longer full-screen, writes.
\<close>

theorem arrangeClient_sixth_counterexample:
  "getTileByClient (tiles (newEngine ()\<lparr>tiles := [sampleTile 3]\<rparr>)) 3 = Some 0
   \<and> \<not> sameGeometry (getClientGeometry (sampleWorld\<lparr>fullScreen := (\<lambda>c. True)\<rparr>) 3)
          (geometry (tiles (newEngine ()\<lparr>tiles := [sampleTile 3]\<rparr>) ! 0))
   \<and> \<not> sameGeometry (getClientGeometry sampleWorld 3)
          (geometry (tiles (newEngine ()\<lparr>tiles := [sampleTile 3]\<rparr>) ! 0))
   \<and> length (replicate 5 (sampleWorld\<lparr>fullScreen := (\<lambda>c. True)\<rparr>)) = 5
   \<and> geometryWrites (snd (arrangeClient 3
        (arrangeClientRun 3 (replicate 5 (sampleWorld\<lparr>fullScreen := (\<lambda>c. True)\<rparr>))
           (newEngine ()\<lparr>tiles := [sampleTile 3]\<rparr>),
         sampleWorld))) = [(3, rect 0 0 600 800)]"
  by (simp add: newEngine_def getTileByClient_def sampleTile_def newTile_def
      isClientFullScreen_def sampleWorld_def sameGeometry_def getClientGeometry_def rect_def
      arrangeClient_def applyTileGeometry_def Let_def setClientGeometry_def
      numeral_eq_Suc)

section \<open>Master promotion\<close>

lemma length_shiftDown: "length (shiftDown i ts) = length ts"
  by (induction i arbitrary: ts) simp_all

lemma nth_shiftDown:
  "i < length ts \<Longrightarrow> j < length ts \<Longrightarrow>
   shiftDown i ts ! j = (if j = 0 then ts ! 0 else if j \<le> i then ts ! (j - 1) else ts ! j)"
proof (induction i arbitrary: ts)
  case 0
  then show ?case by simp
next
  case (Suc i)
  then show ?case by (auto simp: nth_list_update le_Suc_eq)
qed

lemma setMaster_tiles:
  assumes "i < length ts"
  shows "(shiftDown i ts)[0 := ts ! i] = (ts ! i) # take i ts @ drop (Suc i) ts"
proof (rule nth_equalityI)
  show "length ((shiftDown i ts)[0 := ts ! i]) = length ((ts ! i) # take i ts @ drop (Suc i) ts)"
    using assms by (simp add: length_shiftDown)
next
  fix j
  assume "j < length ((shiftDown i ts)[0 := ts ! i])"
  then have j: "j < length ts" by (simp add: length_shiftDown)
  show "(shiftDown i ts)[0 := ts ! i] ! j = ((ts ! i) # take i ts @ drop (Suc i) ts) ! j"
  proof (cases j)
    case 0
    with j show ?thesis by (simp add: length_shiftDown)
  next
    case (Suc k)
    with j assms show ?thesis
      by (auto simp: nth_list_update nth_shiftDown nth_append)
  qed
qed

text \<open>
  Claim C6. \<open>setMaster\<close> on the focused tile \<open>T\<close>, found at index \<open>i\<close> of the tile list:
  afterwards \<open>T\<close> is at index 0, every tile that was before \<open>T\<close> is one position later,
  the tiles after \<open>T\<close> keep their index, so the order of the other tiles is the same. It
  changes nothing when \<open>T\<close> is at index 0 already, or when the focused window has no tile.
\<close>

theorem setMaster_moves_to_front:
  "(getActiveTile (tiles e) w = None \<or> getActiveTile (tiles e) w = Some 0
      \<longrightarrow> setMaster (e, w) = (e, w))
   \<and> (\<forall>i. getActiveTile (tiles e) w = Some i \<longrightarrow>
        setMaster (e, w) = (e\<lparr>tiles := (tiles e ! i) # take i (tiles e) @ drop (Suc i) (tiles e)\<rparr>, w)
        \<and> tiles (fst (setMaster (e, w))) ! 0 = tiles e ! i
        \<and> (\<forall>j<i. tiles (fst (setMaster (e, w))) ! Suc j = tiles e ! j)
        \<and> (\<forall>j. i < j \<and> j < length (tiles e) \<longrightarrow> tiles (fst (setMaster (e, w))) ! j = tiles e ! j))"
proof -
  have noop: "getActiveTile (tiles e) w = None \<or> getActiveTile (tiles e) w = Some 0
      \<longrightarrow> setMaster (e, w) = (e, w)"
    by (auto simp: setMaster_def)
  have moved: "setMaster (e, w) =
        (e\<lparr>tiles := (tiles e ! i) # take i (tiles e) @ drop (Suc i) (tiles e)\<rparr>, w)
      \<and> tiles (fst (setMaster (e, w))) ! 0 = tiles e ! i
      \<and> (\<forall>j<i. tiles (fst (setMaster (e, w))) ! Suc j = tiles e ! j)
      \<and> (\<forall>j. i < j \<and> j < length (tiles e) \<longrightarrow> tiles (fst (setMaster (e, w))) ! j = tiles e ! j)"
    if a: "getActiveTile (tiles e) w = Some i" for i
  proof -
    from a have i: "i < length (tiles e)"
      by (auto simp: getActiveTile_def split: option.splits dest: getTileByClient_Some)
    have eq: "setMaster (e, w) =
        (e\<lparr>tiles := (tiles e ! i) # take i (tiles e) @ drop (Suc i) (tiles e)\<rparr>, w)"
    proof (cases "i = 0")
      case True
      with i have "(tiles e ! 0) # drop (Suc 0) (tiles e) = tiles e"
        by (cases "tiles e") simp_all
      with True a show ?thesis by (simp add: setMaster_def)
    next
      case False
      with a setMaster_tiles [OF i] show ?thesis by (simp add: setMaster_def)
    qed
    have before: "\<forall>j<i. tiles (fst (setMaster (e, w))) ! Suc j = tiles e ! j"
      using i by (simp add: eq nth_append)
    have after: "tiles (fst (setMaster (e, w))) ! j = tiles e ! j"
      if j: "i < j \<and> j < length (tiles e)" for j
    proof -
      from j obtain k where k: "j = Suc k" by (cases j) auto
      with j i show ?thesis by (simp add: eq nth_append)
    qed
    from eq before after show ?thesis by simp
  qed
  from noop moved show ?thesis by blast
qed

theorem setMaster_moves_to_front_witness:
  "getActiveTile (tiles (newEngine ()\<lparr>tiles := [sampleTile 1, sampleTile 2, sampleTile 3]\<rparr>))
     sampleWorld = Some 2
   \<and> setMaster (newEngine ()\<lparr>tiles := [sampleTile 1, sampleTile 2, sampleTile 3]\<rparr>, sampleWorld)
       = (newEngine ()\<lparr>tiles := [sampleTile 3, sampleTile 1, sampleTile 2]\<rparr>, sampleWorld)"
proof -
  let ?e = "newEngine ()\<lparr>tiles := [sampleTile 1, sampleTile 2, sampleTile 3]\<rparr>"
  have h: "getActiveTile (tiles ?e) sampleWorld = Some 2"
    by (simp add: newEngine_def getActiveTile_def getTileByClient_def getActiveClient_def
        sampleWorld_def sampleTile_def newTile_def)
  from setMaster_moves_to_front [of ?e sampleWorld] h
  have "setMaster (?e, sampleWorld) =
      (?e\<lparr>tiles := (tiles ?e ! 2) # take 2 (tiles ?e) @ drop (Suc 2) (tiles ?e)\<rparr>, sampleWorld)"
    by blast
  with h show ?thesis by (simp add: newEngine_def)
qed

section \<open>Visibility and the error flag\<close>

text \<open>
  Claim C4, as the code has it. In every computation of a screen's visible tiles, a tile
  is in the visible set exactly when the adapter's visibility check for its window and
  that screen answers \<open>true\<close>, whatever its \<open>isError\<close> flag. A check that raises sets the
  flag and leaves the tile out of that set; a flag that is set stays set.
\<close>

theorem getVisibleTiles_by_adapter:
  assumes "i < length ts"
  shows "(i \<in> set (snd (getVisibleTiles w (Some screen) ts))
          \<longleftrightarrow> isClientVisible w (client (ts ! i)) (screenId screen) = Some True)
    \<and> isError (fst (getVisibleTiles w (Some screen) ts) ! i)
        = (isError (ts ! i) \<or> isClientVisible w (client (ts ! i)) (screenId screen) = None)"
  using assms
  by (auto simp: getVisibleTiles_def isTileVisible_def Let_def split: option.splits)

theorem getVisibleTiles_by_adapter_witness:
  "0 < length [sampleTile 1\<lparr>isError := True\<rparr>, sampleTile 2]
   \<and> 0 \<in> set (snd (getVisibleTiles sampleWorld (Some (newScreen 0 [10, 11]))
                    [sampleTile 1\<lparr>isError := True\<rparr>, sampleTile 2]))
   \<and> isError (fst (getVisibleTiles sampleWorld (Some (newScreen 0 [10, 11]))
                    [sampleTile 1\<lparr>isError := True\<rparr>, sampleTile 2]) ! 0)"
proof -
  let ?ts = "[sampleTile 1\<lparr>isError := True\<rparr>, sampleTile 2]"
  have h: "0 < length ?ts" by simp
  have v: "isClientVisible sampleWorld (client (?ts ! 0)) (screenId (newScreen 0 [10, 11])) = Some True"
    by (simp add: isClientVisible_def sampleWorld_def)
  from getVisibleTiles_by_adapter [OF h, of sampleWorld "newScreen 0 [10, 11]"] v h
  show ?thesis by simp
qed

text \<open>
  Claim C4 as stated fails: the check for a tile raises in one pass, which sets \<open>isError\<close>
  and leaves the tile out; in the next pass the check answers \<open>true\<close> and the tile, still
  flagged, is in the visible set.
\<close>

theorem isError_not_excluded_counterexample:
  "snd (getVisibleTiles (sampleWorld\<lparr>visibleOn := (\<lambda>c s. None)\<rparr>) (Some (newScreen 0 [10, 11]))
          [sampleTile 3]) = []
   \<and> isError (fst (getVisibleTiles (sampleWorld\<lparr>visibleOn := (\<lambda>c s. None)\<rparr>)
                 (Some (newScreen 0 [10, 11])) [sampleTile 3]) ! 0)
   \<and> snd (getVisibleTiles sampleWorld (Some (newScreen 0 [10, 11]))
          (fst (getVisibleTiles (sampleWorld\<lparr>visibleOn := (\<lambda>c s. None)\<rparr>)
                 (Some (newScreen 0 [10, 11])) [sampleTile 3]))) = [0]"
  by (simp add: getVisibleTiles_def isTileVisible_def isClientVisible_def sampleWorld_def
      Let_def)

section \<open>Cycling layouts\<close>

lemma findIndex_distinct:
  "distinct xs \<Longrightarrow> k < length xs \<Longrightarrow> findIndex (\<lambda>a. a = xs ! k) xs = Some k"
proof (induction xs arbitrary: k)
  case Nil
  then show ?case by simp
next
  case (Cons a as)
  show ?case
  proof (cases k)
    case 0
    then show ?thesis by simp
  next
    case (Suc j)
    with Cons.prems have "as ! j \<noteq> a" by auto
    with Suc Cons show ?thesis by simp
  qed
qed

lemma jsRem_nonneg: "0 \<le> a \<Longrightarrow> 0 < b \<Longrightarrow> jsRem a b = Some (a mod b)"
  by (cases "a = 0") (simp_all add: jsRem_def)

lemma cycleScreen_next:
  assumes "distinct (layouts s)" and "k < length (layouts s)"
    and "layout s = Obj (layouts s ! k)"
  shows "cycleScreen 1 s = s\<lparr>layout := Obj (layouts s ! ((k + 1) mod length (layouts s)))\<rparr>"
proof -
  let ?n = "length (layouts s)"
  have idx: "findIndex (\<lambda>a. a = layouts s ! k) (layouts s) = Some k"
    using assms(1,2) by (rule findIndex_distinct)
  have rem: "jsRem (int k + 1) (int ?n) = Some (int ((k + 1) mod ?n))"
    using assms(2) jsRem_nonneg [of "int k + 1" "int ?n"]
    by (cases "layouts s") (simp_all add: zmod_int add.commute)
  have "(k + 1) mod ?n < ?n" using assms(2) by (intro mod_less_divisor) auto
  with idx rem assms(3) show ?thesis
    by (simp add: cycleScreen_def)
qed

lemma getActiveScreen_ids:
  "map screenId ss = map screenId ss' \<Longrightarrow> getActiveScreen ss w = getActiveScreen ss' w"
proof -
  assume h: "map screenId ss = map screenId ss'"
  then have "length ss = length ss'" by (rule map_eq_imp_length_eq)
  then have e: "ss = [] \<longleftrightarrow> ss' = []" by auto
  have "findIndex (\<lambda>a. a = v) (map screenId ss) = findIndex (\<lambda>a. a = v) (map screenId ss')" for v
    using h by simp
  then have "findIndex (\<lambda>s. screenId s = v) ss = findIndex (\<lambda>s. screenId s = v) ss'" for v
    by (simp add: findIndex_map)
  with e show ?thesis by (simp add: getActiveScreen_def split: option.splits)
qed

lemma getActiveScreen_Some: "getActiveScreen ss w = Inr (Some i) \<Longrightarrow> i < length ss"
  by (auto simp: getActiveScreen_def split: option.splits if_splits dest: findIndex_Some)

lemma cycleLayoutTimes_layout:
  assumes "getActiveScreen (screens e) w = Inr (Some i)"
    and "distinct (layouts (screens e ! i))"
    and "k < length (layouts (screens e ! i))"
    and "layout (screens e ! i) = Obj (layouts (screens e ! i) ! k)"
  shows "cycleLayoutTimes n (e, w) =
    (e\<lparr>screens := (screens e)[i := (screens e ! i)\<lparr>layout :=
        Obj (layouts (screens e ! i) ! ((k + n) mod length (layouts (screens e ! i))))\<rparr>]\<rparr>, w)"
  using assms
proof (induction n arbitrary: e k)
  case 0
  then have a: "(screens e ! i)\<lparr>layout := Obj (layouts (screens e ! i) ! k)\<rparr> = screens e ! i"
    by simp
  have "(k + 0) mod length (layouts (screens e ! i)) = k" using 0(3) by simp
  then have "e\<lparr>screens := (screens e)[i := (screens e ! i)\<lparr>layout :=
        Obj (layouts (screens e ! i) ! ((k + 0) mod length (layouts (screens e ! i))))\<rparr>]\<rparr> = e"
    by (simp only: a list_update_id) simp
  then show ?case by (simp only: cycleLayoutTimes.simps)
next
  case (Suc n)
  let ?s = "screens e ! i"
  let ?s1 = "?s\<lparr>layout := Obj (layouts ?s ! ((k + 1) mod length (layouts ?s)))\<rparr>"
  let ?e1 = "e\<lparr>screens := (screens e)[i := ?s1]\<rparr>"
  from getActiveScreen_Some [OF Suc.prems(1)] have i: "i < length (screens e)" .
  have step: "stateOf (cycleLayout 1 (e, w)) = (?e1, w)"
    using Suc.prems(1) cycleScreen_next [OF Suc.prems(2,3,4)] by (simp add: cycleLayout_def)
  have ids: "map screenId (screens ?e1) = map screenId (screens e)"
    using i by (simp add: map_update list_update_same_conv)
  have a1: "getActiveScreen (screens ?e1) w = Inr (Some i)"
    using getActiveScreen_ids [OF ids] Suc.prems(1) by simp
  have s1: "screens ?e1 ! i = ?s1" using i by simp
  have k1: "(k + 1) mod length (layouts ?s) < length (layouts ?s)"
    using Suc.prems(3) by (intro mod_less_divisor) auto
  have "cycleLayoutTimes n (?e1, w) =
    (?e1\<lparr>screens := (screens ?e1)[i := (screens ?e1 ! i)\<lparr>layout :=
        Obj (layouts (screens ?e1 ! i) ! (((k + 1) mod length (layouts ?s) + n)
           mod length (layouts (screens ?e1 ! i))))\<rparr>]\<rparr>, w)"
  proof (rule Suc.IH [OF a1])
    show "distinct (layouts (screens ?e1 ! i))" using Suc.prems(2) i by simp
    show "(k + 1) mod length (layouts ?s) < length (layouts (screens ?e1 ! i))"
      using k1 i by simp
    show "layout (screens ?e1 ! i) =
        Obj (layouts (screens ?e1 ! i) ! ((k + 1) mod length (layouts ?s)))"
      using i by simp
  qed
  moreover have "((k + 1) mod length (layouts ?s) + n) mod length (layouts ?s)
       = (k + Suc n) mod length (layouts ?s)"
    by (simp add: mod_add_left_eq)
  ultimately show ?case
    using i by (simp add: step)
qed

text \<open>
  Claim C9, as the code has it. On the active screen, let the layouts list have pairwise
  distinct entries and let the active layout be its entry \<open>k\<close>. One forward \<open>CycleLayout\<close>
  makes entry \<open>(k + 1) mod L\<close> the active layout, \<open>L\<close> being the length of the list, so the
  last entry is followed by the first; \<open>L\<close> of them in succession give back the engine
  they started from.
\<close>

theorem cycleLayout_wraps:
  assumes "getActiveScreen (screens e) w = Inr (Some i)"
    and "distinct (layouts (screens e ! i))"
    and "k < length (layouts (screens e ! i))"
    and "layout (screens e ! i) = Obj (layouts (screens e ! i) ! k)"
  shows "cycleLayoutTimes (length (layouts (screens e ! i))) (e, w) = (e, w)
    \<and> cycleLayout 1 (e, w) =
        Return () (e\<lparr>screens := (screens e)[i := (screens e ! i)\<lparr>layout :=
          Obj (layouts (screens e ! i) ! ((k + 1) mod length (layouts (screens e ! i))))\<rparr>]\<rparr>, w)"
proof -
  let ?s = "screens e ! i"
  have "(k + length (layouts ?s)) mod length (layouts ?s) = k"
    using assms(3) by simp
  moreover have "?s\<lparr>layout := Obj (layouts ?s ! k)\<rparr> = ?s" using assms(4) by simp
  ultimately have "cycleLayoutTimes (length (layouts ?s)) (e, w) = (e, w)"
    using cycleLayoutTimes_layout [OF assms, of "length (layouts ?s)"] by simp
  moreover have "cycleLayout 1 (e, w) =
        Return () (e\<lparr>screens := (screens e)[i := ?s\<lparr>layout :=
          Obj (layouts ?s ! ((k + 1) mod length (layouts ?s)))\<rparr>]\<rparr>, w)"
    using assms(1) cycleScreen_next [OF assms(2,3,4)] by (simp add: cycleLayout_def)
  ultimately show ?thesis by simp
qed

theorem cycleLayout_wraps_witness:
  "getActiveScreen (screens (newEngine ()\<lparr>screens := [newScreen 0 [10, 11, 12, 13]]\<rparr>)) sampleWorld
     = Inr (Some 0)
   \<and> distinct (layouts (screens (newEngine ()\<lparr>screens := [newScreen 0 [10, 11, 12, 13]]\<rparr>) ! 0))
   \<and> 0 < length (layouts (screens (newEngine ()\<lparr>screens := [newScreen 0 [10, 11, 12, 13]]\<rparr>) ! 0))
   \<and> layout (screens (newEngine ()\<lparr>screens := [newScreen 0 [10, 11, 12, 13]]\<rparr>) ! 0)
       = Obj (layouts (screens (newEngine ()\<lparr>screens := [newScreen 0 [10, 11, 12, 13]]\<rparr>) ! 0) ! 0)
   \<and> cycleLayoutTimes 4 (newEngine ()\<lparr>screens := [newScreen 0 [10, 11, 12, 13]]\<rparr>, sampleWorld)
       = (newEngine ()\<lparr>screens := [newScreen 0 [10, 11, 12, 13]]\<rparr>, sampleWorld)
   \<and> cycleLayout 1 (newEngine ()\<lparr>screens := [newScreen 0 [10, 11, 12, 13]]\<rparr>, sampleWorld)
       = Return ()
           (newEngine ()\<lparr>screens := [(newScreen 0 [10, 11, 12, 13])\<lparr>layout := Obj 11\<rparr>]\<rparr>,
            sampleWorld)"
proof -
  let ?e = "newEngine ()\<lparr>screens := [newScreen 0 [10, 11, 12, 13]]\<rparr>"
  have h1: "getActiveScreen (screens ?e) sampleWorld = Inr (Some 0)"
    by (simp add: newEngine_def getActiveScreen_def newScreen_def sampleWorld_def)
  have h2: "distinct (layouts (screens ?e ! 0))"
    by (simp add: newEngine_def newScreen_def)
  have h3: "0 < length (layouts (screens ?e ! 0))"
    by (simp add: newEngine_def newScreen_def)
  have h4: "layout (screens ?e ! 0) = Obj (layouts (screens ?e ! 0) ! 0)"
    by (simp add: newEngine_def newScreen_def)
  have len: "length (layouts (screens ?e ! 0)) = 4"
    by (simp add: newEngine_def newScreen_def)
  from cycleLayout_wraps [OF h1 h2 h3 h4] h1 h2 h3 h4 show ?thesis
    unfolding len by (simp add: newEngine_def newScreen_def)
qed

text \<open>
  Claim C9 as stated asks nothing of the entries. \<open>cycleLayout\<close> finds the position of the
  active layout with \<open>indexOf\<close>, the first position of that object: in the list
  \<open>[a, b, a]\<close> the steps from \<open>a\<close> go to \<open>b\<close>, to \<open>a\<close>, and to \<open>b\<close> again, so three steps
  end at \<open>b\<close>.
\<close>

theorem cycleLayout_repeated_entry_counterexample:
  "getActiveScreen (screens (newEngine ()\<lparr>screens := [newScreen 0 [10, 11, 10]]\<rparr>)) sampleWorld
     = Inr (Some 0)
   \<and> length (layouts (screens (newEngine ()\<lparr>screens := [newScreen 0 [10, 11, 10]]\<rparr>) ! 0)) = 3
   \<and> layout (screens (newEngine ()\<lparr>screens := [newScreen 0 [10, 11, 10]]\<rparr>) ! 0) = Obj 10
   \<and> layout (screens (fst (cycleLayoutTimes 3
        (newEngine ()\<lparr>screens := [newScreen 0 [10, 11, 10]]\<rparr>, sampleWorld))) ! 0) = Obj 11"
  by (simp add: newEngine_def getActiveScreen_def newScreen_def sampleWorld_def
      cycleLayout_def cycleScreen_def jsRem_def eval_nat_numeral)

section \<open>Arrangement passes\<close>

lemma isTileVisible_fields:
  "client (fst (isTileVisible w t scr)) = client t"
  "floating (fst (isTileVisible w t scr)) = floating t"
  by (simp_all add: isTileVisible_def split: option.splits)

lemma getVisibleTiles_fields:
  "length (fst (getVisibleTiles w scr ts)) = length ts"
  "map client (fst (getVisibleTiles w scr ts)) = map client ts"
  "map floating (fst (getVisibleTiles w scr ts)) = map floating ts"
  by (simp_all add: getVisibleTiles_def Let_def isTileVisible_fields comp_def)

lemma getVisibleTiles_indices:
  "i \<in> set (snd (getVisibleTiles w (Some scr) ts)) \<Longrightarrow>
     i < length ts \<and> isClientVisible w (client (ts ! i)) (screenId scr) = Some True"
  by (auto simp: getVisibleTiles_def Let_def isTileVisible_def split: option.splits)

lemma dropFullScreen_indices:
  "i \<in> set (fst (dropFullScreen ts is w)) \<Longrightarrow>
     i \<in> set is \<and> \<not> isClientFullScreen w (client (ts ! i))"
proof (induction "is" arbitrary: w)
  case Nil
  then show ?case by simp
next
  case (Cons a as)
  have fs: "isClientFullScreen (clearMarkers v c) d = isClientFullScreen v d" for v c d
    by (simp add: isClientFullScreen_def clearMarkers_def)
  show ?case
  proof (cases "isClientFullScreen w (client (ts ! a))")
    case True
    with Cons.prems have "i \<in> set (fst (dropFullScreen ts as (clearMarkers w (client (ts ! a)))))"
      by simp
    from Cons.IH [OF this] show ?thesis by (simp add: fs)
  next
    case False
    with Cons.prems have "i = a \<or> i \<in> set (fst (dropFullScreen ts as w))"
      by (auto simp: split_beta)
    with False Cons.IH [of w] show ?thesis by auto
  qed
qed

lemma dropFullScreen_world:
  "geometryWrites (snd (dropFullScreen ts is w)) = geometryWrites w"
  "visibleOn (snd (dropFullScreen ts is w)) = visibleOn w"
  "fullScreen (snd (dropFullScreen ts is w)) = fullScreen w"
  by (induction "is" arbitrary: w) (simp_all add: clearMarkers_def split_beta)

lemma map_update_same:
  "f t' = f (ts ! i) \<Longrightarrow> map f (ts[i := t']) = map f ts"
  by (cases "i < length ts") (simp_all add: map_update list_update_same_conv list_update_beyond)

lemma setGeometries_fields:
  "length (setGeometries is rs ts) = length ts"
  "map client (setGeometries is rs ts) = map client ts"
  "map floating (setGeometries is rs ts) = map floating ts"
  by (induction "is" rs ts rule: setGeometries.induct) (simp_all add: map_update_same)

lemma raiseFloating_world:
  "geometryWrites (raiseFloating ts is w) = geometryWrites w"
  "visibleOn (raiseFloating ts is w) = visibleOn w"
  "fullScreen (raiseFloating ts is w) = fullScreen w"
  by (induction "is" arbitrary: w) simp_all

lemma applyTileGeometry_world:
  "visibleOn (snd (applyTileGeometry w t u)) = visibleOn w"
  "fullScreen (snd (applyTileGeometry w t u)) = fullScreen w"
  by (simp_all add: applyTileGeometry_def Let_def setClientGeometry_def)

lemma reconcileAll_world:
  "visibleOn (snd (reconcileAll is (ts, w))) = visibleOn w
   \<and> fullScreen (snd (reconcileAll is (ts, w))) = fullScreen w"
proof (induction "is" arbitrary: ts w)
  case Nil
  then show ?case by simp
next
  case (Cons i "is")
  obtain t' w' where a: "applyTileGeometry w (ts ! i) True = (t', w')"
    by (cases "applyTileGeometry w (ts ! i) True")
  with applyTileGeometry_world [of w "ts ! i" True]
  have "visibleOn w' = visibleOn w" "fullScreen w' = fullScreen w" by simp_all
  with a Cons.IH [of "ts[i := t']" "w'\<lparr>keepBelow := (keepBelow w')(client t' := True)\<rparr>"]
  show ?case by simp
qed

lemma map_eq_nth: "map f xs = map f ys \<Longrightarrow> i < length xs \<Longrightarrow> f (xs ! i) = f (ys ! i)"
  by (metis length_map nth_map)

lemma applyTileGeometry_writes:
  "\<exists>new. geometryWrites (snd (applyTileGeometry w t u)) = geometryWrites w @ new
     \<and> fst ` set new \<subseteq> {client t}"
  by (simp add: applyTileGeometry_def Let_def setClientGeometry_def)

lemma reconcileAll_fields:
  "length (fst (reconcileAll is (ts, w))) = length ts
   \<and> map client (fst (reconcileAll is (ts, w))) = map client ts
   \<and> map floating (fst (reconcileAll is (ts, w))) = map floating ts
   \<and> (\<exists>new. geometryWrites (snd (reconcileAll is (ts, w))) = geometryWrites w @ new
         \<and> fst ` set new \<subseteq> (\<lambda>i. client (ts ! i)) ` set is)"
proof (induction "is" arbitrary: ts w)
  case Nil
  then show ?case by simp
next
  case (Cons i "is")
  obtain t' w' where a: "applyTileGeometry w (ts ! i) True = (t', w')"
    by (cases "applyTileGeometry w (ts ! i) True")
  let ?w1 = "w'\<lparr>keepBelow := (keepBelow w')(client t' := True)\<rparr>"
  let ?ts1 = "ts[i := t']"
  from a applyTileGeometry_fields [of w "ts ! i" True]
  have f: "client t' = client (ts ! i)" "floating t' = floating (ts ! i)" by simp_all
  from a applyTileGeometry_writes [of w "ts ! i" True]
  obtain n1 where n1: "geometryWrites w' = geometryWrites w @ n1" "fst ` set n1 \<subseteq> {client (ts ! i)}"
    by auto
  have mc: "map client ?ts1 = map client ts" and mf: "map floating ?ts1 = map floating ts"
    using f by (simp_all add: map_update_same)
  have same: "client (?ts1 ! j) = client (ts ! j)" for j
    using f by (cases "i < length ts") (auto simp: nth_list_update list_update_beyond)
  from Cons.IH [of ?ts1 ?w1]
  obtain n2 where n2: "length (fst (reconcileAll is (?ts1, ?w1))) = length ?ts1"
      "map client (fst (reconcileAll is (?ts1, ?w1))) = map client ?ts1"
      "map floating (fst (reconcileAll is (?ts1, ?w1))) = map floating ?ts1"
      "geometryWrites (snd (reconcileAll is (?ts1, ?w1))) = geometryWrites ?w1 @ n2"
      "fst ` set n2 \<subseteq> (\<lambda>j. client (?ts1 ! j)) ` set is"
    by blast
  have r: "reconcileAll (i # is) (ts, w) = reconcileAll is (?ts1, ?w1)"
    using a by simp
  have "geometryWrites (snd (reconcileAll (i # is) (ts, w))) = geometryWrites w @ (n1 @ n2)"
    using r n1(1) n2(4) by simp
  moreover have "fst ` set (n1 @ n2) \<subseteq> (\<lambda>j. client (ts ! j)) ` set (i # is)"
    using n1(2) n2(5) by (auto simp: same)
  ultimately show ?case
    using r n2(1,2,3) mc mf by (metis length_list_update)
qed

lemma arrangeScreen_pass:
  "passKeeps (e, w) (stateOf (arrangeScreen L scr (e, w)))
   \<and> (\<exists>new. geometryWrites (snd (stateOf (arrangeScreen L scr (e, w)))) = geometryWrites w @ new
        \<and> (\<forall>c\<in>fst ` set new. \<exists>i<length (tiles e). client (tiles e ! i) = c
              \<and> \<not> floating (tiles e ! i)
              \<and> isClientVisible w c (screenId scr) = Some True
              \<and> \<not> isClientFullScreen w c))"
proof (cases "layout scr = Null")
  case True
  then show ?thesis by (simp add: arrangeScreen_def passKeeps_def)
next
  case False
  obtain ts1 vis where gv: "getVisibleTiles w (Some scr) (tiles e) = (ts1, vis)"
    by (cases "getVisibleTiles w (Some scr) (tiles e)")
  obtain visibles w1 where df: "dropFullScreen ts1 vis w = (visibles, w1)"
    by (cases "dropFullScreen ts1 vis w")
  let ?tileables = "filter (\<lambda>i. \<not> floating (ts1 ! i)) visibles"
  from gv getVisibleTiles_fields [of w "Some scr" "tiles e"]
  have ts1: "length ts1 = length (tiles e)" "map client ts1 = map client (tiles e)"
    "map floating ts1 = map floating (tiles e)" by simp_all
  from df dropFullScreen_world [of ts1 vis w]
  have w1: "geometryWrites w1 = geometryWrites w" "visibleOn w1 = visibleOn w"
    "fullScreen w1 = fullScreen w" by simp_all
  have til: "i < length (tiles e) \<and> \<not> floating (tiles e ! i)
      \<and> isClientVisible w (client (tiles e ! i)) (screenId scr) = Some True
      \<and> \<not> isClientFullScreen w (client (tiles e ! i))" if "i \<in> set ?tileables" for i
  proof -
    from that have v: "i \<in> set visibles" and nf: "\<not> floating (ts1 ! i)" by simp_all
    from v df dropFullScreen_indices [of i ts1 vis w]
    have iv: "i \<in> set vis" and nfs: "\<not> isClientFullScreen w (client (ts1 ! i))" by simp_all
    from iv gv getVisibleTiles_indices [of i w scr "tiles e"]
    have il: "i < length (tiles e)"
      and vi: "isClientVisible w (client (tiles e ! i)) (screenId scr) = Some True" by simp_all
    from il ts1 map_eq_nth [of client ts1 "tiles e" i] map_eq_nth [of floating ts1 "tiles e" i]
    have "client (ts1 ! i) = client (tiles e ! i)" "floating (ts1 ! i) = floating (tiles e ! i)"
      by simp_all
    with il vi nf nfs show ?thesis by simp
  qed
  show ?thesis
  proof (cases "layout scr")
    case (Obj l)
    let ?ts2 = "setGeometries ?tileables
       (layoutApply L (layoutHeap e) l (map (\<lambda>i. ts1 ! i) ?tileables)
          (getWorkingArea w (screenId scr))) ts1"
    obtain ts3 w2 where rc: "reconcileAll ?tileables (?ts2, w1) = (ts3, w2)"
      by (cases "reconcileAll ?tileables (?ts2, w1)")
    let ?w3 = "raiseFloating ts3 (filter (\<lambda>i. floating (ts3 ! i)) visibles) w2"
    have res: "arrangeScreen L scr (e, w) = Return () (e\<lparr>tiles := ts3\<rparr>, ?w3)"
      using False Obj gv df rc by (simp add: arrangeScreen_def Let_def)
    have ts2: "length ?ts2 = length (tiles e)" "map client ?ts2 = map client (tiles e)"
      "map floating ?ts2 = map floating (tiles e)"
      using ts1 by (simp_all add: setGeometries_fields)
    from rc reconcileAll_fields [of ?tileables ?ts2 w1]
    obtain new where ts3: "length ts3 = length ?ts2" "map client ts3 = map client ?ts2"
      "map floating ts3 = map floating ?ts2"
      and new: "geometryWrites w2 = geometryWrites w1 @ new"
        "fst ` set new \<subseteq> (\<lambda>i. client (?ts2 ! i)) ` set ?tileables"
      by auto
    from rc reconcileAll_world [of ?tileables ?ts2 w1]
    have w2: "visibleOn w2 = visibleOn w1" "fullScreen w2 = fullScreen w1" by simp_all
    have keeps: "passKeeps (e, w) (e\<lparr>tiles := ts3\<rparr>, ?w3)"
      using ts2 ts3 w1 w2 by (simp add: passKeeps_def raiseFloating_world)
    have wr: "geometryWrites ?w3 = geometryWrites w @ new"
      using new(1) w1(1) by (simp add: raiseFloating_world)
    have "\<exists>i<length (tiles e). client (tiles e ! i) = c \<and> \<not> floating (tiles e ! i)
          \<and> isClientVisible w c (screenId scr) = Some True \<and> \<not> isClientFullScreen w c"
      if "c \<in> fst ` set new" for c
    proof -
      from that new(2) obtain i where i: "i \<in> set ?tileables" "c = client (?ts2 ! i)" by blast
      from til [OF i(1)] have il: "i < length (tiles e)" by simp
      with ts2 map_eq_nth [of client ?ts2 "tiles e" i]
      have "client (?ts2 ! i) = client (tiles e ! i)"
        by simp
      with i(2) til [OF i(1)] show ?thesis by auto
    qed
    with keeps wr show ?thesis unfolding res by auto
  next
    case Undefined
    have res: "arrangeScreen L scr (e, w) = Throw TypeError (e\<lparr>tiles := ts1\<rparr>, w1)"
      using False Undefined gv df by (simp add: arrangeScreen_def Let_def)
    show ?thesis unfolding res using ts1 w1 by (simp add: passKeeps_def)
  next
    case Null
    with False show ?thesis by simp
  qed
qed

lemma passKeeps_trans: "passKeeps s s' \<Longrightarrow> passKeeps s' s'' \<Longrightarrow> passKeeps s s''"
  by (simp add: passKeeps_def)

lemma arrangeScreens_pass:
  "passKeeps (e, w) (stateOf (arrangeScreens L ss (e, w)))
   \<and> (\<exists>new. geometryWrites (snd (stateOf (arrangeScreens L ss (e, w)))) = geometryWrites w @ new
        \<and> (\<forall>c\<in>fst ` set new. \<exists>i<length (tiles e). client (tiles e ! i) = c
              \<and> \<not> floating (tiles e ! i)
              \<and> (\<exists>scr\<in>set ss. isClientVisible w c (screenId scr) = Some True)
              \<and> \<not> isClientFullScreen w c))"
proof (induction ss arbitrary: e w)
  case Nil
  then show ?case by (simp add: passKeeps_def)
next
  case (Cons scr rest)
  obtain e1 w1 where s1: "stateOf (arrangeScreen L scr (e, w)) = (e1, w1)"
    by (cases "stateOf (arrangeScreen L scr (e, w))")
  from arrangeScreen_pass [of e w L scr] s1
  obtain n1 where k1: "passKeeps (e, w) (e1, w1)"
    and n1: "geometryWrites w1 = geometryWrites w @ n1"
      "\<forall>c\<in>fst ` set n1. \<exists>i<length (tiles e). client (tiles e ! i) = c
              \<and> \<not> floating (tiles e ! i)
              \<and> isClientVisible w c (screenId scr) = Some True
              \<and> \<not> isClientFullScreen w c"
    by auto
  show ?case
  proof (cases "arrangeScreen L scr (e, w)")
    case (Throw err s')
    with s1 have "stateOf (arrangeScreens L (scr # rest) (e, w)) = (e1, w1)" by simp
    with k1 n1 show ?thesis by (simp only: snd_conv list.set) blast
  next
    case (Return u s')
    with s1 have r: "stateOf (arrangeScreens L (scr # rest) (e, w))
        = stateOf (arrangeScreens L rest (e1, w1))" by simp
    from Cons.IH [of e1 w1]
    obtain n2 where k2: "passKeeps (e1, w1) (stateOf (arrangeScreens L rest (e1, w1)))"
      and n2: "geometryWrites (snd (stateOf (arrangeScreens L rest (e1, w1)))) = geometryWrites w1 @ n2"
        "\<forall>c\<in>fst ` set n2. \<exists>i<length (tiles e1). client (tiles e1 ! i) = c
              \<and> \<not> floating (tiles e1 ! i)
              \<and> (\<exists>scr\<in>set rest. isClientVisible w1 c (screenId scr) = Some True)
              \<and> \<not> isClientFullScreen w1 c"
      by auto
    from k1 have len: "length (tiles e1) = length (tiles e)"
      and mc: "map client (tiles e1) = map client (tiles e)"
      and mf: "map floating (tiles e1) = map floating (tiles e)"
      and vo: "visibleOn w1 = visibleOn w" and fs: "fullScreen w1 = fullScreen w"
      by (simp_all add: passKeeps_def)
    have "\<exists>i<length (tiles e). client (tiles e ! i) = c \<and> \<not> floating (tiles e ! i)
          \<and> (\<exists>scr\<in>set (scr # rest). isClientVisible w c (screenId scr) = Some True)
          \<and> \<not> isClientFullScreen w c"
      if "c \<in> fst ` set (n1 @ n2)" for c
    proof (cases "c \<in> fst ` set n1")
      case True
      with n1(2) show ?thesis by auto
    next
      case False
      with that have "c \<in> fst ` set n2" by auto
      with n2(2) obtain i where i: "i < length (tiles e1)" "client (tiles e1 ! i) = c"
        "\<not> floating (tiles e1 ! i)"
        "\<exists>scr\<in>set rest. isClientVisible w1 c (screenId scr) = Some True"
        "\<not> isClientFullScreen w1 c" by blast
      from i(1) mc mf map_eq_nth [of client "tiles e1" "tiles e" i]
        map_eq_nth [of floating "tiles e1" "tiles e" i]
      have "client (tiles e1 ! i) = client (tiles e ! i)"
        "floating (tiles e1 ! i) = floating (tiles e ! i)" by simp_all
      with i len vo fs show ?thesis
        by (auto simp: isClientVisible_def isClientFullScreen_def)
    qed
    moreover have "geometryWrites (snd (stateOf (arrangeScreens L (scr # rest) (e, w))))
        = geometryWrites w @ (n1 @ n2)"
      using r n1(1) n2(1) by simp
    moreover have "passKeeps (e, w) (stateOf (arrangeScreens L (scr # rest) (e, w)))"
      using r k1 k2 passKeeps_trans by metis
    ultimately show ?thesis by blast
  qed
qed

lemma arrange_pass:
  "passKeeps (e, w) (stateOf (arrange L (e, w)))
   \<and> (\<exists>new. geometryWrites (snd (stateOf (arrange L (e, w)))) = geometryWrites w @ new
        \<and> (\<forall>c\<in>fst ` set new. \<exists>i<length (tiles e). client (tiles e ! i) = c
              \<and> \<not> floating (tiles e ! i)
              \<and> (\<exists>scr\<in>set (screens e). isClientVisible w c (screenId scr) = Some True)
              \<and> \<not> isClientFullScreen w c))"
  using arrangeScreens_pass [of e w L "screens e"] by (simp add: arrange_def)

lemma arrange_clients:
  "map client (tiles (fst (stateOf (arrange L (e, w))))) = map client (tiles e)"
  using arrange_pass [of e w L] by (simp add: passKeeps_def)

subsection \<open>Tiles a pass leaves alone\<close>

lemma onlyError_trans:
  "t1 = t0\<lparr>isError := isError t1\<rparr> \<Longrightarrow> t2 = t1\<lparr>isError := isError t2\<rparr>
     \<Longrightarrow> t2 = t0\<lparr>isError := isError (t2::Tile)\<rparr>"
proof -
  assume a: "t1 = t0\<lparr>isError := isError t1\<rparr>" and b: "t2 = t1\<lparr>isError := isError t2\<rparr>"
  have "t2 = (t0\<lparr>isError := isError t1\<rparr>)\<lparr>isError := isError t2\<rparr>"
    using a b by simp
  then show ?thesis by simp
qed

lemma isTileVisible_onlyError:
  "fst (isTileVisible w t scr) = t\<lparr>isError := isError (fst (isTileVisible w t scr))\<rparr>"
  by (simp add: isTileVisible_def split: option.splits)

lemma getVisibleTiles_nth:
  "i < length ts \<Longrightarrow>
     fst (getVisibleTiles w scr ts) ! i
       = (ts ! i)\<lparr>isError := isError (fst (getVisibleTiles w scr ts) ! i)\<rparr>"
  using isTileVisible_onlyError [of w "ts ! i" scr]
  by (simp add: getVisibleTiles_def Let_def)

lemma setGeometries_nth: "i \<notin> set is \<Longrightarrow> setGeometries is rs ts ! i = ts ! i"
  by (induction "is" rs ts rule: setGeometries.induct) (auto simp: nth_list_update)

lemma reconcileAll_nth: "i \<notin> set is \<Longrightarrow> fst (reconcileAll is (ts, w)) ! i = ts ! i"
proof (induction "is" arbitrary: ts w)
  case Nil
  then show ?case by simp
next
  case (Cons k ks)
  obtain t' w' where a: "applyTileGeometry w (ts ! k) True = (t', w')"
    by (cases "applyTileGeometry w (ts ! k) True")
  from Cons.prems have "i \<noteq> k" "i \<notin> set ks" by simp_all
  with a Cons.IH [of "ts[k := t']" "w'\<lparr>keepBelow := (keepBelow w')(client t' := True)\<rparr>"]
  show ?case by (simp add: nth_list_update)
qed

lemma arrangeScreen_untouched:
  assumes "i < length (tiles e)"
    and "floating (tiles e ! i) \<or> isClientFullScreen w (client (tiles e ! i))
         \<or> isClientVisible w (client (tiles e ! i)) (screenId scr) \<noteq> Some True"
  shows "tiles (fst (stateOf (arrangeScreen L scr (e, w)))) ! i
     = (tiles e ! i)\<lparr>isError := isError (tiles (fst (stateOf (arrangeScreen L scr (e, w)))) ! i)\<rparr>"
proof (cases "layout scr = Null")
  case True
  then show ?thesis by (simp add: arrangeScreen_def)
next
  case False
  obtain ts1 vis where gv: "getVisibleTiles w (Some scr) (tiles e) = (ts1, vis)"
    by (cases "getVisibleTiles w (Some scr) (tiles e)")
  obtain visibles w1 where df: "dropFullScreen ts1 vis w = (visibles, w1)"
    by (cases "dropFullScreen ts1 vis w")
  let ?tileables = "filter (\<lambda>i. \<not> floating (ts1 ! i)) visibles"
  from gv getVisibleTiles_fields [of w "Some scr" "tiles e"]
  have ts1: "length ts1 = length (tiles e)" "map client ts1 = map client (tiles e)"
    "map floating ts1 = map floating (tiles e)" by simp_all
  from gv getVisibleTiles_nth [OF assms(1), of w "Some scr"]
  have t1: "ts1 ! i = (tiles e ! i)\<lparr>isError := isError (ts1 ! i)\<rparr>" by simp
  from assms(1) ts1 map_eq_nth [of client ts1 "tiles e" i] map_eq_nth [of floating ts1 "tiles e" i]
  have same: "client (ts1 ! i) = client (tiles e ! i)" "floating (ts1 ! i) = floating (tiles e ! i)"
    by simp_all
  have out: "i \<notin> set ?tileables"
  proof
    assume "i \<in> set ?tileables"
    then have v: "i \<in> set visibles" and nf: "\<not> floating (ts1 ! i)" by simp_all
    from v df dropFullScreen_indices [of i ts1 vis w]
    have iv: "i \<in> set vis" and nfs: "\<not> isClientFullScreen w (client (ts1 ! i))" by simp_all
    from iv gv getVisibleTiles_indices [of i w scr "tiles e"]
    have "isClientVisible w (client (tiles e ! i)) (screenId scr) = Some True" by simp
    with nf nfs same assms(2) show False by simp
  qed
  show ?thesis
  proof (cases "layout scr")
    case (Obj l)
    let ?ts2 = "setGeometries ?tileables
       (layoutApply L (layoutHeap e) l (map (\<lambda>i. ts1 ! i) ?tileables)
          (getWorkingArea w (screenId scr))) ts1"
    obtain ts3 w2 where rc: "reconcileAll ?tileables (?ts2, w1) = (ts3, w2)"
      by (cases "reconcileAll ?tileables (?ts2, w1)")
    have res: "arrangeScreen L scr (e, w) =
        Return () (e\<lparr>tiles := ts3\<rparr>,
          raiseFloating ts3 (filter (\<lambda>i. floating (ts3 ! i)) visibles) w2)"
      using False Obj gv df rc by (simp add: arrangeScreen_def Let_def)
    from rc reconcileAll_nth [OF out, of ?ts2 w1] have "ts3 ! i = ?ts2 ! i" by simp
    also have "\<dots> = ts1 ! i" using out by (rule setGeometries_nth)
    finally have "ts3 ! i = ts1 ! i" .
    with t1 show ?thesis unfolding res by simp
  next
    case Undefined
    have res: "arrangeScreen L scr (e, w) = Throw TypeError (e\<lparr>tiles := ts1\<rparr>, w1)"
      using False Undefined gv df by (simp add: arrangeScreen_def Let_def)
    from t1 show ?thesis unfolding res by simp
  next
    case Null
    with False show ?thesis by simp
  qed
qed

lemma arrangeScreens_untouched:
  assumes "i < length (tiles e)"
    and "floating (tiles e ! i) \<or> isClientFullScreen w (client (tiles e ! i))
         \<or> (\<forall>scr\<in>set ss. isClientVisible w (client (tiles e ! i)) (screenId scr) \<noteq> Some True)"
  shows "tiles (fst (stateOf (arrangeScreens L ss (e, w)))) ! i
     = (tiles e ! i)\<lparr>isError := isError (tiles (fst (stateOf (arrangeScreens L ss (e, w)))) ! i)\<rparr>"
  using assms
proof (induction ss arbitrary: e w)
  case Nil
  then show ?case by simp
next
  case (Cons scr rest)
  obtain e1 w1 where s1: "stateOf (arrangeScreen L scr (e, w)) = (e1, w1)"
    by (cases "stateOf (arrangeScreen L scr (e, w))")
  from Cons.prems(2)
  have c1: "floating (tiles e ! i) \<or> isClientFullScreen w (client (tiles e ! i))
         \<or> isClientVisible w (client (tiles e ! i)) (screenId scr) \<noteq> Some True"
    by auto
  from arrangeScreen_untouched [OF Cons.prems(1) c1, of L] s1
  have u1: "tiles e1 ! i = (tiles e ! i)\<lparr>isError := isError (tiles e1 ! i)\<rparr>" by simp
  show ?case
  proof (cases "arrangeScreen L scr (e, w)")
    case (Throw err s')
    with s1 u1 show ?thesis by simp
  next
    case (Return u s')
    with s1 have r: "stateOf (arrangeScreens L (scr # rest) (e, w))
        = stateOf (arrangeScreens L rest (e1, w1))" by simp
    from arrangeScreen_pass [of e w L scr] s1 have k: "passKeeps (e, w) (e1, w1)" by simp
    then have len: "length (tiles e1) = length (tiles e)"
      and vo: "visibleOn w1 = visibleOn w" and fs: "fullScreen w1 = fullScreen w"
      by (simp_all add: passKeeps_def)
    from u1 have cf: "client (tiles e1 ! i) = client (tiles e ! i)"
      "floating (tiles e1 ! i) = floating (tiles e ! i)"
      by (metis Tile.select_convs(2) Tile.surjective Tile.update_convs(5),
          metis Tile.select_convs(3) Tile.surjective Tile.update_convs(5))
    have i1: "i < length (tiles e1)" using Cons.prems(1) len by simp
    have c2: "floating (tiles e1 ! i) \<or> isClientFullScreen w1 (client (tiles e1 ! i))
         \<or> (\<forall>scr\<in>set rest. isClientVisible w1 (client (tiles e1 ! i)) (screenId scr) \<noteq> Some True)"
      using Cons.prems(2) cf vo fs by (auto simp: isClientVisible_def isClientFullScreen_def)
    from Cons.IH [OF i1 c2]
    have "tiles (fst (stateOf (arrangeScreens L rest (e1, w1)))) ! i
       = (tiles e1 ! i)\<lparr>isError := isError (tiles (fst (stateOf (arrangeScreens L rest (e1, w1)))) ! i)\<rparr>" .
    from onlyError_trans [OF u1 this] r show ?thesis by simp
  qed
qed

lemma arrangeClient_writes:
  "\<exists>new. geometryWrites (snd (arrangeClient c (e, w))) = geometryWrites w @ new
      \<and> length new \<le> 1
      \<and> (\<forall>cr\<in>set new. \<exists>i. getTileByClient (tiles e) c = Some i
            \<and> \<not> floating (tiles e ! i) \<and> \<not> isClientFullScreen w c
            \<and> cr = (c, geometry (tiles e ! i)))"
proof (cases "getTileByClient (tiles e) c")
  case None
  then show ?thesis by (simp add: arrangeClient_def)
next
  case (Some i)
  from getTileByClient_Some [OF Some] have "client (tiles e ! i) = c" by simp
  with Some show ?thesis
    by (simp add: arrangeClient_def applyTileGeometry_def Let_def setClientGeometry_def)
qed

lemma arrangeClient_others:
  "length (tiles (fst (arrangeClient c (e, w)))) = length (tiles e)
   \<and> (\<forall>j<length (tiles e). floating (tiles e ! j)
         \<longrightarrow> tiles (fst (arrangeClient c (e, w))) ! j = tiles e ! j)"
  by (auto simp: arrangeClient_def split: option.splits prod.splits)
     (metis nth_list_update_neq)

text \<open>
  Claim C7. An \<open>arrange\<close> pass, whether it returns or throws: every geometry write it
  issues is for the window of a tile that is not floating, is visible on one of the
  screens and is not full-screen; and a tile that is floating (or full-screen, or visible
  on no screen) comes out of the pass as it went in, but for its \<open>isError\<close> flag, so the
  layout and the reconciliation touch the non-floating visible tiles only. Every call of
  \<open>arrangeClient\<close>: it issues at most one write, and only the target geometry of the
  tile resolved for the window, that tile being not floating and the window not
  full-screen; it leaves every floating tile as it is; and when the resolved tile is
  floating it returns with the engine and the window manager unchanged.
\<close>

theorem tiling_path_skips_floating:
  "(\<exists>new. geometryWrites (snd (stateOf (arrange L (e, w)))) = geometryWrites w @ new
      \<and> (\<forall>c\<in>fst ` set new. \<exists>i<length (tiles e). client (tiles e ! i) = c
            \<and> \<not> floating (tiles e ! i)
            \<and> (\<exists>scr\<in>set (screens e). isClientVisible w c (screenId scr) = Some True)
            \<and> \<not> isClientFullScreen w c))
   \<and> length (tiles (fst (stateOf (arrange L (e, w))))) = length (tiles e)
   \<and> (\<forall>i<length (tiles e).
         floating (tiles e ! i) \<or> isClientFullScreen w (client (tiles e ! i))
         \<or> (\<forall>scr\<in>set (screens e).
               isClientVisible w (client (tiles e ! i)) (screenId scr) \<noteq> Some True)
         \<longrightarrow> tiles (fst (stateOf (arrange L (e, w)))) ! i
               = (tiles e ! i)\<lparr>isError := isError (tiles (fst (stateOf (arrange L (e, w)))) ! i)\<rparr>)
   \<and> (\<exists>new. geometryWrites (snd (arrangeClient c' (e, w))) = geometryWrites w @ new
      \<and> length new \<le> 1
      \<and> (\<forall>cr\<in>set new. \<exists>i. getTileByClient (tiles e) c' = Some i
            \<and> \<not> floating (tiles e ! i) \<and> \<not> isClientFullScreen w c'
            \<and> cr = (c', geometry (tiles e ! i))))
   \<and> length (tiles (fst (arrangeClient c' (e, w)))) = length (tiles e)
   \<and> (\<forall>j<length (tiles e). floating (tiles e ! j)
         \<longrightarrow> tiles (fst (arrangeClient c' (e, w))) ! j = tiles e ! j)
   \<and> (\<forall>i. getTileByClient (tiles e) c' = Some i \<and> floating (tiles e ! i)
         \<longrightarrow> arrangeClient c' (e, w) = (e, w))"
proof -
  have noop: "\<forall>i. getTileByClient (tiles e) c' = Some i \<and> floating (tiles e ! i)
         \<longrightarrow> arrangeClient c' (e, w) = (e, w)"
    by (simp add: arrangeClient_def)
  have len: "length (tiles (fst (stateOf (arrange L (e, w))))) = length (tiles e)"
    using arrange_pass [of e w L] by (simp add: passKeeps_def)
  have unt: "\<forall>i<length (tiles e).
         floating (tiles e ! i) \<or> isClientFullScreen w (client (tiles e ! i))
         \<or> (\<forall>scr\<in>set (screens e).
               isClientVisible w (client (tiles e ! i)) (screenId scr) \<noteq> Some True)
         \<longrightarrow> tiles (fst (stateOf (arrange L (e, w)))) ! i
               = (tiles e ! i)\<lparr>isError := isError (tiles (fst (stateOf (arrange L (e, w)))) ! i)\<rparr>"
    using arrangeScreens_untouched [of _ e w "screens e" L] by (simp add: arrange_def)
  from arrange_pass [of e w L] len unt arrangeClient_writes [of c' e w]
    arrangeClient_others [of c' e w] noop
  show ?thesis by blast
qed

theorem tiling_path_skips_floating_witness:
  "geometryWrites (snd (stateOf (arrange sampleLayout
       (newEngine ()\<lparr>screens := [newScreen 0 [10]],
                      tiles := [sampleTile 1\<lparr>floating := True\<rparr>, sampleTile 2]\<rparr>, sampleWorld))))
     = geometryWrites sampleWorld @ [(2, rect 0 0 1200 800)]
   \<and> floating (tiles (newEngine ()\<lparr>screens := [newScreen 0 [10]],
                      tiles := [sampleTile 1\<lparr>floating := True\<rparr>, sampleTile 2]\<rparr>) ! 0)
   \<and> tiles (fst (stateOf (arrange sampleLayout
       (newEngine ()\<lparr>screens := [newScreen 0 [10]],
                      tiles := [sampleTile 1\<lparr>floating := True\<rparr>, sampleTile 2]\<rparr>, sampleWorld)))) ! 0
     = sampleTile 1\<lparr>floating := True\<rparr>
   \<and> geometryWrites (snd (arrangeClient 2
       (newEngine ()\<lparr>screens := [newScreen 0 [10]],
                      tiles := [sampleTile 1\<lparr>floating := True\<rparr>, sampleTile 2]\<rparr>, sampleWorld)))
     = geometryWrites sampleWorld @ [(2, rect 0 0 600 800)]
   \<and> tiles (fst (arrangeClient 2
       (newEngine ()\<lparr>screens := [newScreen 0 [10]],
                      tiles := [sampleTile 1\<lparr>floating := True\<rparr>, sampleTile 2]\<rparr>, sampleWorld))) ! 0
     = sampleTile 1\<lparr>floating := True\<rparr>
   \<and> getTileByClient (tiles (newEngine ()\<lparr>screens := [newScreen 0 [10]],
                      tiles := [sampleTile 1\<lparr>floating := True\<rparr>, sampleTile 2]\<rparr>)) 1 = Some 0
   \<and> arrangeClient 1 (newEngine ()\<lparr>screens := [newScreen 0 [10]],
                      tiles := [sampleTile 1\<lparr>floating := True\<rparr>, sampleTile 2]\<rparr>, sampleWorld)
       = (newEngine ()\<lparr>screens := [newScreen 0 [10]],
                      tiles := [sampleTile 1\<lparr>floating := True\<rparr>, sampleTile 2]\<rparr>, sampleWorld)"
proof -
  let ?e = "newEngine ()\<lparr>screens := [newScreen 0 [10]],
                      tiles := [sampleTile 1\<lparr>floating := True\<rparr>, sampleTile 2]\<rparr>"
  have h0: "0 < length (tiles ?e)" by (simp add: newEngine_def)
  have h1: "getTileByClient (tiles ?e) 1 = Some 0"
    by (simp add: newEngine_def getTileByClient_def sampleTile_def newTile_def)
  have h2: "floating (tiles ?e ! 0)"
    by (simp add: newEngine_def sampleTile_def newTile_def)
  have t0: "tiles ?e ! 0 = sampleTile 1\<lparr>floating := True\<rparr>" by (simp add: newEngine_def)
  have wr: "geometryWrites (snd (stateOf (arrange sampleLayout (?e, sampleWorld))))
     = geometryWrites sampleWorld @ [(2, rect 0 0 1200 800)]"
    by (simp add: arrange_def arrangeScreen_def newEngine_def newScreen_def sampleTile_def
      newTile_def sampleWorld_def sampleLayout_def getVisibleTiles_def isTileVisible_def
      isClientVisible_def isClientFullScreen_def getWorkingArea_def applyTileGeometry_def
      getClientGeometry_def setClientGeometry_def sameGeometry_def rect_def Let_def
      upt_rec [of 0] upt_rec [of 1] upt_rec [of 2] upt_rec [of "Suc 0"])
  have ie: "isError (tiles (fst (stateOf (arrange sampleLayout (?e, sampleWorld)))) ! 0) = False"
    by (simp add: arrange_def arrangeScreen_def newEngine_def newScreen_def sampleTile_def
      newTile_def sampleWorld_def sampleLayout_def getVisibleTiles_def isTileVisible_def
      isClientVisible_def isClientFullScreen_def getWorkingArea_def applyTileGeometry_def
      getClientGeometry_def setClientGeometry_def sameGeometry_def rect_def Let_def
      upt_rec [of 0] upt_rec [of 1] upt_rec [of 2] upt_rec [of "Suc 0"])
  have wc: "geometryWrites (snd (arrangeClient 2 (?e, sampleWorld)))
     = geometryWrites sampleWorld @ [(2, rect 0 0 600 800)]"
    by (simp add: arrangeClient_def newEngine_def getTileByClient_def sampleTile_def newTile_def
      sampleWorld_def isClientFullScreen_def applyTileGeometry_def getClientGeometry_def
      setClientGeometry_def sameGeometry_def rect_def Let_def)
  note th = tiling_path_skips_floating [of sampleLayout ?e sampleWorld]
  from th [of 1] h0 h2
  have "tiles (fst (stateOf (arrange sampleLayout (?e, sampleWorld)))) ! 0
     = (tiles ?e ! 0)\<lparr>isError := isError (tiles (fst (stateOf (arrange sampleLayout (?e, sampleWorld)))) ! 0)\<rparr>"
    by blast
  then have a0: "tiles (fst (stateOf (arrange sampleLayout (?e, sampleWorld)))) ! 0
     = sampleTile 1\<lparr>floating := True\<rparr>"
    unfolding ie t0 by (simp add: sampleTile_def newTile_def)
  from th [of 2] h0 h2
  have "tiles (fst (arrangeClient 2 (?e, sampleWorld))) ! 0 = tiles ?e ! 0" by blast
  then have c0: "tiles (fst (arrangeClient 2 (?e, sampleWorld))) ! 0 = sampleTile 1\<lparr>floating := True\<rparr>"
    unfolding t0 .
  from th [of 1] h1 h2
  have c1: "arrangeClient 1 (?e, sampleWorld) = (?e, sampleWorld)" by blast
  from wr h2 a0 wc c0 h1 c1 show ?thesis by blast
qed

section \<open>One tile per window\<close>

lemma setFloat_client: "client (fst (setFloat w t v g)) = client t"
  by (simp add: setFloat_def setFloatApply_def split: FloatValue.splits)

lemma manageClient_clients:
  "map client (tiles (fst (stateOf (manageClient L c (e, w))))) = map client (tiles e)
   \<or> map client (tiles (fst (stateOf (manageClient L c (e, w))))) = map client (tiles e) @ [c]"
proof (cases "list_ex (\<lambda>rule. Some (getClientClassName w c) = className rule \<and> ignore rule) (rules e)")
  case True
  then show ?thesis by (simp add: manageClient_def)
next
  case False
  let ?tile = "newTile c (getClientGeometry w c)"
  obtain tile' w' where sf:
    "(if list_ex (\<lambda>rule. Some (getClientClassName w c) = className rule \<and> ruleFloating rule) (rules e)
      then setFloat w ?tile (BoolValue True) None else (?tile, w)) = (tile', w')"
    by (cases "if list_ex (\<lambda>rule. Some (getClientClassName w c) = className rule \<and> ruleFloating rule) (rules e)
      then setFloat w ?tile (BoolValue True) None else (?tile, w)")
  then have ct: "client tile' = c"
    using setFloat_client [of w ?tile "BoolValue True" None]
    by (auto simp: newTile_def split: if_splits)
  have "stateOf (manageClient L c (e, w)) = stateOf (arrange L (e\<lparr>tiles := tiles e @ [tile']\<rparr>, w'))"
    using False sf by (simp add: manageClient_def Let_def split: outcome.splits)
  with arrange_clients [of L "e\<lparr>tiles := tiles e @ [tile']\<rparr>" w'] ct show ?thesis by simp
qed

lemma unmanageClient_clients:
  "map client (tiles (fst (stateOf (unmanageClient L c (e, w)))))
     = map client (filter (\<lambda>t. client t \<noteq> c \<and> \<not> isError t) (tiles e))"
  using arrange_clients [of L "e\<lparr>tiles := filter (\<lambda>t. client t \<noteq> c \<and> \<not> isError t) (tiles e)\<rparr>" w]
  by (simp add: unmanageClient_def)

lemma getTileByClient_None: "getTileByClient ts c = None \<longleftrightarrow> c \<notin> client ` set ts"
  by (auto simp: getTileByClient_def findIndex_None)

lemma runLifecycle_distinct:
  "distinct (map client (tiles e)) \<Longrightarrow> managesUntracked L ops e \<Longrightarrow>
     distinct (map client (tiles (runLifecycle L ops e)))"
proof (induction ops arbitrary: e)
  case Nil
  then show ?case by simp
next
  case (Cons op ops)
  show ?case
  proof (cases op)
    case (Manage c w)
    let ?e1 = "fst (stateOf (manageClient L c (e, w)))"
    from Cons.prems(2) Manage have fresh: "c \<notin> client ` set (tiles e)"
      and rest: "managesUntracked L ops ?e1"
      by (simp_all add: getTileByClient_None)
    from manageClient_clients [of L c e w] Cons.prems(1) fresh
    have "distinct (map client (tiles ?e1))" by auto
    from Cons.IH [OF this rest] Manage show ?thesis by simp
  next
    case (Unmanage c w)
    let ?e1 = "fst (stateOf (unmanageClient L c (e, w)))"
    from Cons.prems(2) Unmanage have rest: "managesUntracked L ops ?e1" by simp
    have "distinct (map client (tiles ?e1))"
      using Cons.prems(1) by (simp add: unmanageClient_clients distinct_map_filter)
    from Cons.IH [OF this rest] Unmanage show ?thesis by simp
  qed
qed

text \<open>
  Claim C1, as the code has it. Start from an engine without tiles (any rules, any
  screens) and run any sequence of \<open>manageClient\<close> and \<open>unmanageClient\<close> calls, each in
  any state of the window manager, in which every \<open>manageClient\<close> is for a window that has
  no tile at that moment. Then no two tiles of the resulting list have the same client.
\<close>

theorem one_tile_per_window:
  assumes "tiles e = []" and "managesUntracked L ops e"
  shows "distinct (map client (tiles (runLifecycle L ops e)))"
  using assms by (intro runLifecycle_distinct) simp_all

theorem one_tile_per_window_witness:
  "tiles (newEngine ()) = []
   \<and> managesUntracked sampleLayout
        [Manage 1 sampleWorld, Manage 2 sampleWorld, Unmanage 1 sampleWorld, Manage 1 sampleWorld]
        (newEngine ())
   \<and> distinct (map client (tiles (runLifecycle sampleLayout
        [Manage 1 sampleWorld, Manage 2 sampleWorld, Unmanage 1 sampleWorld, Manage 1 sampleWorld]
        (newEngine ()))))"
proof -
  have h1: "tiles (newEngine ()) = []" by (simp add: newEngine_def)
  have h2: "managesUntracked sampleLayout
        [Manage 1 sampleWorld, Manage 2 sampleWorld, Unmanage 1 sampleWorld, Manage 1 sampleWorld]
        (newEngine ())"
    by (simp add: manageClient_def unmanageClient_def arrange_def newEngine_def newTile_def
        getClientClassName_def getTileByClient_def)
  from one_tile_per_window [OF h1 h2] h1 h2 show ?thesis by blast
qed

text \<open>
  Claim C1 as stated includes managing a window twice. \<open>manageClient\<close> does not look for
  an existing tile: the second call appends a second tile for the same window.
\<close>

theorem manage_twice_counterexample:
  "map client (tiles (runLifecycle sampleLayout [Manage 1 sampleWorld, Manage 1 sampleWorld]
     (newEngine ()))) = [1, 1]
   \<and> \<not> distinct (map client (tiles (runLifecycle sampleLayout
     [Manage 1 sampleWorld, Manage 1 sampleWorld] (newEngine ()))))"
  by (simp add: manageClient_def arrange_def newEngine_def newTile_def getClientClassName_def)

section \<open>Shifting tiles\<close>

lemma passesVisible_checked: "passesVisible w scr t \<Longrightarrow> checkedTile w scr t = t"
  by (auto simp: passesVisible_def checkedTile_def isTileVisible_def split: option.splits)

lemma passesVisible_checkedTile [simp]:
  "passesVisible w scr (checkedTile w scr t) = passesVisible w scr t"
  by (auto simp: passesVisible_def checkedTile_def isTileVisible_def split: option.splits)

lemma isTileVisible_pair: "isTileVisible w t scr = (checkedTile w scr t, passesVisible w scr t)"
  by (simp add: passesVisible_def checkedTile_def)

lemma moveTileLoop_swap:
  assumes "k < length ts" and "passesVisible w scr (ts ! k)"
    and "step - (if fwd then 1 else - 1) = 0"
  shows "moveTileLoop w scr fwd (int k) tileIdx step ts = ts[tileIdx := ts ! k, k := ts ! tileIdx]"
  using assms
  by (subst moveTileLoop.simps) (simp add: isTileVisible_pair passesVisible_checked)

lemma moveTileLoop_skip:
  assumes "k < length ts" and "\<not> passesVisible w scr (ts ! k)"
  shows "moveTileLoop w scr fwd (int k) tileIdx step ts
     = moveTileLoop w scr fwd (int k + (if fwd then 1 else - 1)) tileIdx step
         (ts[k := checkedTile w scr (ts ! k)])"
  using assms
  by (subst moveTileLoop.simps) (simp add: isTileVisible_pair)

lemma moveTileLoop_up:
  assumes "passesVisible w scr V" and "\<forall>m\<in>set M. \<not> passesVisible w scr m"
  shows "moveTileLoop w scr False (int (length A + length M)) (length A + 1 + length M + length C)
           (- 1) (A @ [V] @ M @ C @ [T] @ B)
         = A @ [T] @ map (checkedTile w scr) M @ C @ [V] @ B"
  using assms(2)
proof (induction M arbitrary: C rule: rev_induct)
  case Nil
  have "moveTileLoop w scr False (int (length A)) (length A + 1 + length C) (- 1)
          (A @ [V] @ C @ [T] @ B)
        = (A @ [V] @ C @ [T] @ B)[length A + 1 + length C := V, length A := T]"
    using assms(1)
    by (subst moveTileLoop.simps)
       (simp add: isTileVisible_pair passesVisible_checked nth_append)
  also have "\<dots> = A @ [T] @ C @ [V] @ B"
    by (simp add: list_update_append nth_append)
  finally show ?case by simp
next
  case (snoc m M)
  from snoc.prems have nm: "\<not> passesVisible w scr m" and rest: "\<forall>m\<in>set M. \<not> passesVisible w scr m"
    by simp_all
  let ?ts = "A @ [V] @ (M @ [m]) @ C @ [T] @ B"
  have at: "?ts ! (length A + length M + 1) = m" by (simp add: nth_append)
  have upd: "?ts[length A + length M + 1 := checkedTile w scr m]
      = A @ [V] @ M @ (checkedTile w scr m # C) @ [T] @ B"
    by (simp add: list_update_append)
  have "moveTileLoop w scr False (int (length A + length (M @ [m])))
          (length A + 1 + length (M @ [m]) + length C) (- 1) ?ts
      = moveTileLoop w scr False (int (length A + length M))
          (length A + 1 + length M + length (checkedTile w scr m # C)) (- 1)
          (A @ [V] @ M @ (checkedTile w scr m # C) @ [T] @ B)"
    apply (subst moveTileLoop.simps)
    using nm at upd
    apply (simp add: isTileVisible_pair nat_add_distrib)
    done
  also have "\<dots> = A @ [T] @ map (checkedTile w scr) M @ (checkedTile w scr m # C) @ [V] @ B"
    by (rule snoc.IH [OF rest])
  finally show ?case by simp
qed

lemma moveTileLoop_down:
  assumes "passesVisible w scr V" and "\<forall>m\<in>set M. \<not> passesVisible w scr m"
  shows "moveTileLoop w scr True (int (length A + 1 + length C)) (length A) 1
           (A @ [T] @ C @ M @ [V] @ B)
         = A @ [V] @ C @ map (checkedTile w scr) M @ [T] @ B"
  using assms(2)
proof (induction M arbitrary: C)
  case Nil
  let ?ts = "A @ [T] @ C @ [V] @ B"
  have at: "?ts ! (length A + 1 + length C) = V" "?ts ! length A = T"
    by (simp_all add: nth_append)
  have "moveTileLoop w scr True (int (length A + 1 + length C)) (length A) 1 ?ts
        = ?ts[length A := ?ts ! (length A + 1 + length C), length A + 1 + length C := ?ts ! length A]"
  proof (rule moveTileLoop_swap)
    show "length A + 1 + length C < length ?ts" by simp
    show "passesVisible w scr (?ts ! (length A + 1 + length C))"
      unfolding at by (rule assms(1))
    show "1 - (if True then 1 else - 1) = (0::int)" by simp
  qed
  also have "\<dots> = A @ [V] @ C @ [T] @ B"
    unfolding at by (simp add: list_update_append nth_append)
  finally show ?case by simp
next
  case (Cons m M)
  from Cons.prems have nm: "\<not> passesVisible w scr m" and rest: "\<forall>m\<in>set M. \<not> passesVisible w scr m"
    by simp_all
  let ?ts = "A @ [T] @ C @ (m # M) @ [V] @ B"
  have at: "?ts ! (length A + 1 + length C) = m" by (simp add: nth_append)
  have upd: "?ts[length A + 1 + length C := checkedTile w scr m]
      = A @ [T] @ (C @ [checkedTile w scr m]) @ M @ [V] @ B"
    by (simp add: list_update_append)
  have "moveTileLoop w scr True (int (length A + 1 + length C)) (length A) 1 ?ts
      = moveTileLoop w scr True (int (length A + 1 + length C) + (if True then 1 else - 1))
          (length A) 1 (?ts[length A + 1 + length C := checkedTile w scr (?ts ! (length A + 1 + length C))])"
  proof (rule moveTileLoop_skip)
    show "length A + 1 + length C < length ?ts" by simp
    show "\<not> passesVisible w scr (?ts ! (length A + 1 + length C))"
      unfolding at by (rule nm)
  qed
  also have "\<dots> = moveTileLoop w scr True (int (length A + 1 + length (C @ [checkedTile w scr m])))
          (length A) 1 (A @ [T] @ (C @ [checkedTile w scr m]) @ M @ [V] @ B)"
    unfolding at upd by (simp add: add.commute)
  also have "\<dots> = A @ [V] @ (C @ [checkedTile w scr m]) @ map (checkedTile w scr) M @ [T] @ B"
    by (rule Cons.IH [OF rest])
  finally show ?case by simp
qed

lemma filter_invisible:
  "\<forall>m\<in>set M. \<not> passesVisible w scr m \<Longrightarrow>
     filter (passesVisible w scr) M = [] \<and> filter (passesVisible w scr) (map (checkedTile w scr) M) = []"
  by (induction M) simp_all

text \<open>
  Claim C8, as the code has it. \<open>V\<close> is the nearest tile before (ShiftUp) or after
  (ShiftDown) the focused tile \<open>T\<close> that is visible on the active screen, \<open>M\<close> the tiles
  between them, none of them visible. The operation exchanges \<open>T\<close> and \<open>V\<close>; every other
  tile keeps its index in the tile list, the tiles of \<open>M\<close> with \<open>isError\<close> set where their
  check raised. So \<open>T\<close>, when visible, moves exactly one position among the visible
  tiles, and the tiles other than \<open>T\<close> and \<open>V\<close> keep their order; \<open>V\<close> moves to the other
  side of the tiles of \<open>M\<close>.
\<close>

theorem moveTile_swaps_with_neighbour:
  assumes "scr = (case getActiveScreen (screens e) w of
                    Inl err \<Rightarrow> None
                  | Inr screen \<Rightarrow> screenAt (screens e) screen)"
    and "passesVisible w scr V"
    and "\<forall>m\<in>set M. \<not> passesVisible w scr m"
  shows "(tiles e = A @ [V] @ M @ [T] @ B
          \<and> getActiveTile (tiles e) w = Some (length A + 1 + length M)
        \<longrightarrow> moveTile (- 1) (e, w)
              = Return () (e\<lparr>tiles := A @ [T] @ map (checkedTile w scr) M @ [V] @ B\<rparr>, w)
            \<and> (passesVisible w scr T \<longrightarrow>
                 filter (passesVisible w scr) (tiles e)
                   = filter (passesVisible w scr) A @ [V, T] @ filter (passesVisible w scr) B
                 \<and> filter (passesVisible w scr) (tiles (fst (stateOf (moveTile (- 1) (e, w)))))
                   = filter (passesVisible w scr) A @ [T, V] @ filter (passesVisible w scr) B))
    \<and> (tiles e = A @ [T] @ M @ [V] @ B
          \<and> getActiveTile (tiles e) w = Some (length A)
        \<longrightarrow> moveTile 1 (e, w)
              = Return () (e\<lparr>tiles := A @ [V] @ map (checkedTile w scr) M @ [T] @ B\<rparr>, w)
            \<and> (passesVisible w scr T \<longrightarrow>
                 filter (passesVisible w scr) (tiles e)
                   = filter (passesVisible w scr) A @ [T, V] @ filter (passesVisible w scr) B
                 \<and> filter (passesVisible w scr) (tiles (fst (stateOf (moveTile 1 (e, w)))))
                   = filter (passesVisible w scr) A @ [V, T] @ filter (passesVisible w scr) B))"
proof -
  note inv = filter_invisible [OF assms(3)]
  have up: "moveTile (- 1) (e, w) = Return () (e\<lparr>tiles := A @ [T] @ map (checkedTile w scr) M @ [V] @ B\<rparr>, w)"
    if t: "tiles e = A @ [V] @ M @ [T] @ B"
      and a: "getActiveTile (tiles e) w = Some (length A + 1 + length M)"
  proof -
    from moveTileLoop_up [OF assms(2,3), of A "[]" T B]
    have "moveTileLoop w scr False (int (length A + 1 + length M) + - 1) (length A + 1 + length M)
           (- 1) (tiles e) = A @ [T] @ map (checkedTile w scr) M @ [V] @ B"
      by (simp add: t)
    moreover from a obtain c where "activeClient w = Some c"
      by (auto simp: getActiveTile_def getActiveClient_def split: option.splits)
    then obtain io where io: "getActiveScreen (screens e) w = Inr io"
      by (simp add: getActiveScreen_def)
    moreover from io assms(1) have "scr = screenAt (screens e) io" by simp
    ultimately show ?thesis using a by (simp add: moveTile_def Let_def)
  qed
  have down: "moveTile 1 (e, w) = Return () (e\<lparr>tiles := A @ [V] @ map (checkedTile w scr) M @ [T] @ B\<rparr>, w)"
    if t: "tiles e = A @ [T] @ M @ [V] @ B"
      and a: "getActiveTile (tiles e) w = Some (length A)"
  proof -
    from moveTileLoop_down [OF assms(2,3), of A "[]" T B]
    have "moveTileLoop w scr True (int (length A) + 1) (length A) 1 (tiles e)
         = A @ [V] @ map (checkedTile w scr) M @ [T] @ B"
      by (simp add: t add.commute)
    moreover from a obtain c where "activeClient w = Some c"
      by (auto simp: getActiveTile_def getActiveClient_def split: option.splits)
    then obtain io where io: "getActiveScreen (screens e) w = Inr io"
      by (simp add: getActiveScreen_def)
    moreover from io assms(1) have "scr = screenAt (screens e) io" by simp
    ultimately show ?thesis using a by (simp add: moveTile_def Let_def)
  qed
  have c1: "moveTile (- 1) (e, w)
              = Return () (e\<lparr>tiles := A @ [T] @ map (checkedTile w scr) M @ [V] @ B\<rparr>, w)
            \<and> (passesVisible w scr T \<longrightarrow>
                 filter (passesVisible w scr) (tiles e)
                   = filter (passesVisible w scr) A @ [V, T] @ filter (passesVisible w scr) B
                 \<and> filter (passesVisible w scr) (tiles (fst (stateOf (moveTile (- 1) (e, w)))))
                   = filter (passesVisible w scr) A @ [T, V] @ filter (passesVisible w scr) B)"
    if t: "tiles e = A @ [V] @ M @ [T] @ B"
      and a: "getActiveTile (tiles e) w = Some (length A + 1 + length M)"
    using up [OF t a] inv assms(2) by (simp add: t)
  have c2: "moveTile 1 (e, w)
              = Return () (e\<lparr>tiles := A @ [V] @ map (checkedTile w scr) M @ [T] @ B\<rparr>, w)
            \<and> (passesVisible w scr T \<longrightarrow>
                 filter (passesVisible w scr) (tiles e)
                   = filter (passesVisible w scr) A @ [T, V] @ filter (passesVisible w scr) B
                 \<and> filter (passesVisible w scr) (tiles (fst (stateOf (moveTile 1 (e, w)))))
                   = filter (passesVisible w scr) A @ [V, T] @ filter (passesVisible w scr) B)"
    if t: "tiles e = A @ [T] @ M @ [V] @ B"
      and a: "getActiveTile (tiles e) w = Some (length A)"
    using down [OF t a] inv assms(2) by (simp add: t)
  from c1 c2 show ?thesis by blast
qed

theorem moveTile_swaps_with_neighbour_witness:
  "passesVisible (sampleWorld\<lparr>visibleOn := (\<lambda>c s. Some (c \<noteq> 2))\<rparr>) (Some (newScreen 0 [10]))
     (sampleTile 1)
   \<and> \<not> passesVisible (sampleWorld\<lparr>visibleOn := (\<lambda>c s. Some (c \<noteq> 2))\<rparr>) (Some (newScreen 0 [10]))
     (sampleTile 2)
   \<and> getActiveTile [sampleTile 1, sampleTile 2, sampleTile 3]
        (sampleWorld\<lparr>visibleOn := (\<lambda>c s. Some (c \<noteq> 2))\<rparr>) = Some 2
   \<and> moveTile (- 1)
        (newEngine ()\<lparr>screens := [newScreen 0 [10]],
                      tiles := [sampleTile 1, sampleTile 2, sampleTile 3]\<rparr>,
         sampleWorld\<lparr>visibleOn := (\<lambda>c s. Some (c \<noteq> 2))\<rparr>)
       = Return ()
          (newEngine ()\<lparr>screens := [newScreen 0 [10]],
                      tiles := [sampleTile 3, sampleTile 2, sampleTile 1]\<rparr>,
          sampleWorld\<lparr>visibleOn := (\<lambda>c s. Some (c \<noteq> 2))\<rparr>)
   \<and> getActiveTile [sampleTile 3, sampleTile 2, sampleTile 1]
        (sampleWorld\<lparr>visibleOn := (\<lambda>c s. Some (c \<noteq> 2))\<rparr>) = Some 0
   \<and> moveTile 1
        (newEngine ()\<lparr>screens := [newScreen 0 [10]],
                      tiles := [sampleTile 3, sampleTile 2, sampleTile 1]\<rparr>,
         sampleWorld\<lparr>visibleOn := (\<lambda>c s. Some (c \<noteq> 2))\<rparr>)
       = Return ()
          (newEngine ()\<lparr>screens := [newScreen 0 [10]],
                      tiles := [sampleTile 1, sampleTile 2, sampleTile 3]\<rparr>,
          sampleWorld\<lparr>visibleOn := (\<lambda>c s. Some (c \<noteq> 2))\<rparr>)"
proof -
  let ?w = "sampleWorld\<lparr>visibleOn := (\<lambda>c s. Some (c \<noteq> 2))\<rparr>"
  let ?scr = "Some (newScreen 0 [10])"
  let ?up = "newEngine ()\<lparr>screens := [newScreen 0 [10]],
                      tiles := [sampleTile 1, sampleTile 2, sampleTile 3]\<rparr>"
  let ?down = "newEngine ()\<lparr>screens := [newScreen 0 [10]],
                      tiles := [sampleTile 3, sampleTile 2, sampleTile 1]\<rparr>"
  have su: "?scr = (case getActiveScreen (screens ?up) ?w of
                      Inl err \<Rightarrow> None
                    | Inr screen \<Rightarrow> screenAt (screens ?up) screen)"
    and sd: "?scr = (case getActiveScreen (screens ?down) ?w of
                      Inl err \<Rightarrow> None
                    | Inr screen \<Rightarrow> screenAt (screens ?down) screen)"
    by (simp_all add: screenAt_def getActiveScreen_def newEngine_def newScreen_def sampleWorld_def)
  have v: "passesVisible ?w ?scr (sampleTile 1)"
    by (simp add: passesVisible_def isTileVisible_def isClientVisible_def sampleTile_def
        newTile_def sampleWorld_def)
  have n: "\<not> passesVisible ?w ?scr (sampleTile 2)"
    by (simp add: passesVisible_def isTileVisible_def isClientVisible_def sampleTile_def
        newTile_def sampleWorld_def)
  then have m: "\<forall>m\<in>set [sampleTile 2]. \<not> passesVisible ?w ?scr m" by simp
  have c: "checkedTile ?w ?scr (sampleTile 2) = sampleTile 2"
    by (simp add: checkedTile_def isTileVisible_def isClientVisible_def sampleTile_def
        newTile_def sampleWorld_def)
  have au: "getActiveTile [sampleTile 1, sampleTile 2, sampleTile 3] ?w = Some 2"
    and ad: "getActiveTile [sampleTile 3, sampleTile 2, sampleTile 1] ?w = Some 0"
    by (simp_all add: getActiveTile_def getTileByClient_def getActiveClient_def sampleTile_def
        newTile_def sampleWorld_def)
  have tu: "tiles ?up = [] @ [sampleTile 1] @ [sampleTile 2] @ [sampleTile 3] @ []"
    and td: "tiles ?down = [] @ [sampleTile 3] @ [sampleTile 2] @ [sampleTile 1] @ []"
    by (simp_all add: newEngine_def)
  have au': "getActiveTile (tiles ?up) ?w = Some (length ([]::Tile list) + 1 + length [sampleTile 2])"
    using au by (simp add: newEngine_def)
  have ad': "getActiveTile (tiles ?down) ?w = Some (length ([]::Tile list))"
    using ad by (simp add: newEngine_def)
  from moveTile_swaps_with_neighbour [OF su v m, of "[]" "sampleTile 3" "[]"] tu au'
  have "moveTile (- 1) (?up, ?w)
      = Return () (?up\<lparr>tiles := [] @ [sampleTile 3] @ map (checkedTile ?w ?scr) [sampleTile 2]
            @ [sampleTile 1] @ []\<rparr>, ?w)"
    by blast
  then have r1: "moveTile (- 1) (?up, ?w)
      = Return () (?up\<lparr>tiles := [sampleTile 3, sampleTile 2, sampleTile 1]\<rparr>, ?w)"
    by (simp add: c)
  from moveTile_swaps_with_neighbour [OF sd v m, of "[]" "sampleTile 3" "[]"] td ad'
  have "moveTile 1 (?down, ?w)
      = Return () (?down\<lparr>tiles := [] @ [sampleTile 1] @ map (checkedTile ?w ?scr) [sampleTile 2]
            @ [sampleTile 3] @ []\<rparr>, ?w)"
    by blast
  then have r2: "moveTile 1 (?down, ?w)
      = Return () (?down\<lparr>tiles := [sampleTile 1, sampleTile 2, sampleTile 3]\<rparr>, ?w)"
    by (simp add: c)
  from v n au ad r1 r2 show ?thesis by (simp add: newEngine_def)
qed

text \<open>
  Claim C8 as stated has all tiles other than the focused one keep their order. With
  tiles 1, 2, 3, tile 2 not visible and tile 3 focused, ShiftUp gives 3, 2, 1: tile 1 was
  before tile 2 and is after it.
\<close>

theorem moveTile_order_counterexample:
  "map client (tiles (newEngine ()\<lparr>screens := [newScreen 0 [10]],
                      tiles := [sampleTile 1, sampleTile 2, sampleTile 3]\<rparr>)) = [1, 2, 3]
   \<and> snd (getVisibleTiles (sampleWorld\<lparr>visibleOn := (\<lambda>c s. Some (c \<noteq> 2))\<rparr>)
        (Some (newScreen 0 [10])) [sampleTile 1, sampleTile 2, sampleTile 3]) = [0, 2]
   \<and> getActiveTile [sampleTile 1, sampleTile 2, sampleTile 3]
        (sampleWorld\<lparr>visibleOn := (\<lambda>c s. Some (c \<noteq> 2))\<rparr>) = Some 2
   \<and> map client (tiles (fst (stateOf (moveTile (- 1)
        (newEngine ()\<lparr>screens := [newScreen 0 [10]],
                      tiles := [sampleTile 1, sampleTile 2, sampleTile 3]\<rparr>,
         sampleWorld\<lparr>visibleOn := (\<lambda>c s. Some (c \<noteq> 2))\<rparr>))))) = [3, 2, 1]"
  by (simp add: moveTile_def moveTileLoop.simps [of _ _ _ 1] moveTileLoop.simps [of _ _ _ 0] Let_def getActiveTile_def getTileByClient_def
      getActiveClient_def screenAt_def getActiveScreen_def newEngine_def newScreen_def
      getVisibleTiles_def isTileVisible_def isClientVisible_def sampleTile_def newTile_def
      sampleWorld_def upt_rec [of 0] upt_rec [of 1] upt_rec [of 2] upt_rec [of "Suc 0"]
      upt_rec [of 3])

end
